theory Spec2Isabelle
  imports Complex_Main "HOL-Library.Signed_Division"
begin

section \<open>The model\<close>

subsection \<open>Arithmetic of the Go runtime used by \<open>buildCertificateInfo\<close>\<close>

text \<open>
  \<open>buildCertificateInfo\<close> computes
  \<^verbatim>\<open>days := int(cert.NotAfter.Sub(now).Hours() / 24)\<close>.
  \<open>Sub\<close> yields an \<open>int64\<close> count of nanoseconds, \<open>Hours\<close> turns it into a
  \<open>float64\<close>, the division by 24 is a \<open>float64\<close> division and \<open>int(...)\<close> drops the
  fraction. The \<open>float64\<close> operations are modelled exactly: every value is a rational,
  and each operation rounds its exact result to the nearest number with a 53 bit
  significand, ties to even. Overflow and subnormal numbers are left out of
  \<open>float64\<close>: for an \<open>int64\<close> duration every value met on the way is zero or has a
  magnitude between \<open>10\<^sup>-\<^sup>1\<^sup>4\<close> and \<open>10\<^sup>1\<^sup>3\<close>.
\<close>

fun width :: "nat \<Rightarrow> nat" where
  "width n = (if n = 0 then 0 else Suc (width (n div 2)))"

declare width.simps [simp del]

definition rne :: "rat \<Rightarrow> int" where
  \<comment> \<open>round to the nearest integer, ties to the even one\<close>
  "rne x = (let f = \<lfloor>x\<rfloor>; r = x - of_int f in
     if r < 1 / 2 then f else if 1 / 2 < r then f + 1 else if even f then f else f + 1)"

definition ilog2 :: "rat \<Rightarrow> int" where
  \<comment> \<open>the binary exponent \<open>e\<close> of \<open>x \<noteq> 0\<close>: \<open>2\<^sup>e \<le> \<bar>x\<bar> < 2\<^sup>e\<^sup>+\<^sup>1\<close>\<close>
  "ilog2 x = (if 1 \<le> \<bar>x\<bar> then int (width (nat \<lfloor>\<bar>x\<bar>\<rfloor>)) - 1
              else - int (width (nat \<lceil>1 / \<bar>x\<bar>\<rceil> - 1)))"

definition float64 :: "rat \<Rightarrow> rat" where
  \<comment> \<open>the \<open>float64\<close> nearest to \<open>x\<close>\<close>
  "float64 x = (if x = 0 then 0 else
     let q = 2 powi (ilog2 x - 52) in of_int (rne (x / q)) * q)"

definition go_int :: "rat \<Rightarrow> int" where
  \<comment> \<open>the conversion \<open>int(f)\<close> of a \<open>float64\<close>: the fraction is discarded\<close>
  "go_int f = (if 0 \<le> f then \<lfloor>f\<rfloor> else \<lceil>f\<rceil>)"

text \<open>
  A \<open>time.Time\<close> is an instant, counted here in nanoseconds since the Unix epoch; a
  \<open>time.Duration\<close> is an \<open>int64\<close> count of nanoseconds. \<open>t.Sub(u)\<close> is \<open>t - u\<close>, or the
  largest (smallest) duration when the difference does not fit. \<open>d / Hour\<close> and
  \<open>d % Hour\<close> on \<open>int64\<close> truncate toward zero (\<open>sdiv\<close>, \<open>smod\<close>).
\<close>

type_synonym Time = int
type_synonym Duration = int

definition minDuration :: Duration where "minDuration = - (2 ^ 63)"
definition maxDuration :: Duration where "maxDuration = 2 ^ 63 - 1"
definition Hour :: Duration where "Hour = 3600000000000"

definition Sub :: "Time \<Rightarrow> Time \<Rightarrow> Duration" where
  "Sub t u = (if t - u < minDuration then minDuration
              else if maxDuration < t - u then maxDuration else t - u)"

definition Before :: "Time \<Rightarrow> Time \<Rightarrow> bool" where
  "Before t u = (t < u)"

definition Hours :: "Duration \<Rightarrow> rat" where
  \<comment> \<open>\<^verbatim>\<open>hour := d / Hour; nsec := d % Hour; return float64(hour) + float64(nsec)/(60*60*1e9)\<close>\<close>
  "Hours d = (let hour = d sdiv Hour; nsec = d smod Hour in
     float64 (float64 (of_int hour) + float64 (float64 (of_int nsec) / 3600000000000)))"

definition daysUntil :: "Duration \<Rightarrow> int" where
  \<comment> \<open>\<^verbatim>\<open>int(d.Hours() / 24)\<close>\<close>
  "daysUntil d = go_int (float64 (Hours d / 24))"

subsection \<open>Data of package \<open>scanner\<close>\<close>

record Parser =
  includeSubject :: bool
  daysThreshold :: int

text \<open>
  Of an \<open>x509.Certificate\<close> the scanner reads \<open>NotAfter\<close> and the renderings
  \<open>SerialNumber.String()\<close>, \<open>Subject.String()\<close> and \<open>Issuer.String()\<close>.
\<close>

record x509_Certificate =
  NotAfter :: Time
  SerialNumber_String :: string
  Subject_String :: string
  Issuer_String :: string

record CertificateInfo =
  Path :: string
  Subject :: string
  ExpirationDate :: Time
  DaysUntilExpiry :: int
  IsExpired :: bool
  IsExpiringSoon :: bool
  SerialNumber :: string
  Issuer :: string

record pem_Block =
  Type :: string
  Bytes :: string

record FileInfo =
  Size :: int

datatype error =
    DeadlineExceeded
  | Canceled
  | OsError string
  | X509Error string
  | StatFailed error
  | FileTooLarge
  | ReadFailed error
  | ParseFailed error
  | NoCertificatesFound
  | TimeoutParsing string
  | CancelledParsing string
  | FailedToParse string error

record ScanResult =
  CertInfos :: "CertificateInfo list"
  Error :: "error option"

definition MaxFileSize :: int where
  "MaxFileSize = 100 * 1024 * 1024"

subsection \<open>The world around the scanner\<close>

text \<open>
  The functions of the Go standard library that the scanner calls are parameters of the
  model: \<open>pem.Decode\<close> (a block, or none, and the rest of the buffer),
  \<open>x509.ParseCertificate\<close>, \<open>os.Stat\<close> and \<open>os.ReadFile\<close>.
\<close>

record stdlib =
  pem_Decode :: "string \<Rightarrow> pem_Block option \<times> string"
  x509_ParseCertificate :: "string \<Rightarrow> error + x509_Certificate"
  os_Stat :: "string \<Rightarrow> error + FileInfo"
  os_ReadFile :: "string \<Rightarrow> error + string"

datatype syscall = Stat string | ReadFile string

datatype chan_event = Recv string | Send ScanResult

text \<open>
  What the code changes or observes: the wall clock (\<open>readings w n\<close> is what the
  \<open>n\<close>-th call of \<open>time.Now()\<close> returns, \<open>reads w\<close> counts the calls made), the file
  system calls made so far, what one worker received from \<open>fileCh\<close> and sent to
  \<open>resultCh\<close>, and that worker's share of the shutdown manager's wait group counter.
\<close>

record world =
  readings :: "nat \<Rightarrow> Time"
  reads :: nat
  trace :: "syscall list"
  chan_log :: "chan_event list"
  wg :: int

definition time_Now :: "world \<Rightarrow> Time \<times> world" where
  "time_Now w = (readings w (reads w), w\<lparr>reads := Suc (reads w)\<rparr>)"

definition frozen_clock :: "Time \<Rightarrow> world" where
  \<comment> \<open>a fresh world whose clock stands still at \<open>t\<close>\<close>
  "frozen_clock t = \<lparr>readings = (\<lambda>n. t), reads = 0, trace = [], chan_log = [], wg = 0\<rparr>"

definition ticking_clock :: "Time \<Rightarrow> Duration \<Rightarrow> world" where
  \<comment> \<open>a fresh world whose clock starts at \<open>t\<close> and advances by \<open>step\<close> between two readings\<close>
  "ticking_clock t step =
     \<lparr>readings = (\<lambda>n. t + int n * step), reads = 0, trace = [], chan_log = [], wg = 0\<rparr>"

subsection \<open>The certificate parser\<close>

definition certificateInfoAt ::
  "Time \<Rightarrow> Parser \<Rightarrow> string \<Rightarrow> x509_Certificate \<Rightarrow> CertificateInfo" where
  \<comment> \<open>the body of \<open>buildCertificateInfo\<close> after \<^verbatim>\<open>now := time.Now()\<close>\<close>
  "certificateInfoAt now p fp cert =
    (let days = daysUntil (Sub (NotAfter cert) now);
         info = \<lparr>Path = fp,
                 Subject = [],
                 ExpirationDate = NotAfter cert,
                 DaysUntilExpiry = days,
                 IsExpired = Before (NotAfter cert) now,
                 IsExpiringSoon = (days \<le> daysThreshold p \<and> days \<ge> 0),
                 SerialNumber = SerialNumber_String cert,
                 Issuer = []\<rparr>
     in if includeSubject p
        then info\<lparr>Subject := Subject_String cert, Issuer := Issuer_String cert\<rparr>
        else info)"

definition buildCertificateInfo ::
  "Parser \<Rightarrow> string \<Rightarrow> x509_Certificate \<Rightarrow> world \<Rightarrow> CertificateInfo \<times> world" where
  "buildCertificateInfo p fp cert w =
    (case time_Now w of (now, w') \<Rightarrow> (certificateInfoAt now p fp cert, w'))"

text \<open>
  The loop of \<open>ParseData\<close> over the PEM blocks of the buffer. It ends when the buffer is
  used up, when \<open>pem.Decode\<close> finds no block, or with the first certificate block that
  \<open>x509.ParseCertificate\<close> rejects. Whether it ends at all rests on \<open>pem.Decode\<close>
  using up input, so the result is optional: \<open>None\<close> stands for a loop that runs forever.
\<close>

partial_function (option) ParseData_loop ::
  "stdlib \<Rightarrow> Parser \<Rightarrow> string \<Rightarrow> string \<Rightarrow> CertificateInfo list \<Rightarrow> world
    \<Rightarrow> ((error + CertificateInfo list) \<times> world) option" where
  "ParseData_loop L p fp remaining certs w =
    (if remaining = [] then Some (Inr certs, w)
     else case pem_Decode L remaining of
       (None, rest) \<Rightarrow> Some (Inr certs, w)
     | (Some block, rest) \<Rightarrow>
         if Type block = ''CERTIFICATE''
         then (case x509_ParseCertificate L (Bytes block) of
                 Inl err \<Rightarrow> Some (Inl (ParseFailed err), w)
               | Inr cert \<Rightarrow>
                   (case buildCertificateInfo p fp cert w of
                      (info, w') \<Rightarrow> ParseData_loop L p fp rest (certs @ [info]) w'))
         else ParseData_loop L p fp rest certs w)"

definition ParseData_finish ::
  "CertificateInfo list \<Rightarrow> world \<Rightarrow> (error + CertificateInfo list) \<times> world" where
  \<comment> \<open>\<^verbatim>\<open>if len(certs) == 0 { return nil, fmt.Errorf("no certificates found in file") }; return certs, nil\<close>\<close>
  "ParseData_finish certs w =
    (if length certs = 0 then (Inl NoCertificatesFound, w) else (Inr certs, w))"

definition ParseData_DER ::
  "stdlib \<Rightarrow> Parser \<Rightarrow> string \<Rightarrow> string \<Rightarrow> CertificateInfo list \<Rightarrow> world
    \<Rightarrow> (error + CertificateInfo list) \<times> world" where
  \<comment> \<open>the part of \<open>ParseData\<close> after the loop: the whole buffer as one DER certificate\<close>
  "ParseData_DER L p fp data certs w =
    (if length certs = 0
     then (case x509_ParseCertificate L data of
             Inl err \<Rightarrow> (Inl (ParseFailed err), w)
           | Inr cert \<Rightarrow>
               (case buildCertificateInfo p fp cert w of
                  (info, w') \<Rightarrow> ParseData_finish (certs @ [info]) w'))
     else ParseData_finish certs w)"

definition ParseData ::
  "stdlib \<Rightarrow> Parser \<Rightarrow> string \<Rightarrow> string \<Rightarrow> world
    \<Rightarrow> ((error + CertificateInfo list) \<times> world) option" where
  "ParseData L p fp data w =
    (case ParseData_loop L p fp data [] w of
       None \<Rightarrow> None
     | Some (Inl err, w') \<Rightarrow> Some (Inl err, w')
     | Some (Inr certs, w') \<Rightarrow> Some (ParseData_DER L p fp data certs w'))"

text \<open>
  \<open>readFileWithContext\<close> starts \<open>os.ReadFile\<close> in a goroutine and waits for it or for
  the context, whichever comes first. The argument \<open>ctx\<close> is what that \<open>select\<close>
  observes: \<open>None\<close> when the read is done first, the context's error otherwise.
\<close>

definition readFileWithContext ::
  "stdlib \<Rightarrow> error option \<Rightarrow> string \<Rightarrow> world \<Rightarrow> (error + string) \<times> world" where
  "readFileWithContext L ctx fp w =
    (let w' = w\<lparr>trace := trace w @ [ReadFile fp]\<rparr>
     in case ctx of None \<Rightarrow> (os_ReadFile L fp, w') | Some err \<Rightarrow> (Inl err, w'))"

definition ParseFileWithContext ::
  "stdlib \<Rightarrow> Parser \<Rightarrow> error option \<Rightarrow> string \<Rightarrow> world
    \<Rightarrow> ((error + CertificateInfo list) \<times> world) option" where
  "ParseFileWithContext L p ctx fp w =
    (let w1 = w\<lparr>trace := trace w @ [Stat fp]\<rparr>
     in case os_Stat L fp of
          Inl err \<Rightarrow> Some (Inl (StatFailed err), w1)
        | Inr fi \<Rightarrow>
            if Size fi > MaxFileSize then Some (Inl FileTooLarge, w1)
            else (case readFileWithContext L ctx fp w1 of
                    (Inl err, w2) \<Rightarrow> Some (Inl (ReadFailed err), w2)
                  | (Inr data, w2) \<Rightarrow> ParseData L p fp data w2))"

subsection \<open>One worker of the pool\<close>

definition processFileWithContext ::
  "stdlib \<Rightarrow> Parser \<Rightarrow> error option \<Rightarrow> string \<Rightarrow> world \<Rightarrow> (ScanResult \<times> world) option" where
  "processFileWithContext L p ctx fp w =
    (case ParseFileWithContext L p ctx fp w of
       None \<Rightarrow> None
     | Some (Inl err, w') \<Rightarrow>
         Some (if err = DeadlineExceeded
               then \<lparr>CertInfos = [], Error = Some (TimeoutParsing fp)\<rparr>
               else if err = Canceled
               then \<lparr>CertInfos = [], Error = Some (CancelledParsing fp)\<rparr>
               else \<lparr>CertInfos = [], Error = Some (FailedToParse fp err)\<rparr>, w')
     | Some (Inr certInfos, w') \<Rightarrow> Some (\<lparr>CertInfos = certInfos, Error = None\<rparr>, w'))"

text \<open>
  A worker runs \<open>processFiles\<close>. What the other goroutines do shows in the worker only
  at its \<open>select\<close> statements and at its read of the shutdown flag, so one round of
  its loop is determined by what it observes there: the outer \<open>select\<close> takes
  \<open>ctx.Done()\<close>, or finds \<open>fileCh\<close> closed, or receives a path; in the last case
  \<open>IsShuttingDown()\<close> returns \<open>shuttingDown\<close>, the \<open>select\<close> of the file read observes
  \<open>readCtx\<close>, and the final \<open>select\<close> sends the result (\<open>sendOk\<close>) or takes
  \<open>ctx.Done()\<close>. The result tells whether the worker has returned (\<open>True\<close>) or waits in
  its outer \<open>select\<close> for a round the list does not have.
\<close>

datatype round =
    CtxDone
  | ChanClosed
  | Received (path: string) (shuttingDown: bool) (readCtx: "error option") (sendOk: bool)

fun processFiles :: "stdlib \<Rightarrow> Parser \<Rightarrow> round list \<Rightarrow> world \<Rightarrow> (bool \<times> world) option" where
  "processFiles L p [] w = Some (False, w)"
| "processFiles L p (CtxDone # rounds) w = Some (True, w)"
| "processFiles L p (ChanClosed # rounds) w = Some (True, w)"
| "processFiles L p (Received fp sd rc ok # rounds) w =
    (let w1 = w\<lparr>chan_log := chan_log w @ [Recv fp]\<rparr>
     in if sd then Some (True, w1)
        else (case processFileWithContext L p rc fp (w1\<lparr>wg := wg w1 + 1\<rparr>) of
                None \<Rightarrow> None
              | Some (result, w2) \<Rightarrow>
                  (let w3 = w2\<lparr>wg := wg w2 - 1\<rparr>
                   in if ok
                      then processFiles L p rounds (w3\<lparr>chan_log := chan_log w3 @ [Send result]\<rparr>)
                      else Some (True, w3))))"

fun received :: "chan_event list \<Rightarrow> string list" where
  "received [] = []"
| "received (Recv fp # es) = fp # received es"
| "received (Send r # es) = received es"

fun sent :: "chan_event list \<Rightarrow> ScanResult list" where
  "sent [] = []"
| "sent (Recv fp # es) = sent es"
| "sent (Send r # es) = r # sent es"

subsection \<open>Notions used to state the properties\<close>

text \<open>
  The blocks of a buffer, in the order in which the loop of \<open>ParseData\<close> meets them:
  \<open>pem.Decode\<close> delivers them one after another, until the buffer is used up or holds
  no further block.
\<close>

inductive pem_blocks :: "stdlib \<Rightarrow> string \<Rightarrow> pem_Block list \<Rightarrow> bool" for L :: stdlib where
  used_up: "pem_blocks L [] []"
| no_block: "remaining \<noteq> [] \<Longrightarrow> fst (pem_Decode L remaining) = None \<Longrightarrow> pem_blocks L remaining []"
| block: "remaining \<noteq> [] \<Longrightarrow> pem_Decode L remaining = (Some b, rest) \<Longrightarrow> pem_blocks L rest bs
    \<Longrightarrow> pem_blocks L remaining (b # bs)"

text \<open>
  A miniature standard library, for running the model on concrete buffers. A block takes
  two bytes: \<open>C\<close> or \<open>K\<close>, for a block of type \<open>CERTIFICATE\<close> or \<open>PRIVATE KEY\<close>, and
  one byte of payload. A payload that is a digit parses as the certificate that expires
  so many days after the epoch; any other payload is rejected. The file system holds the
  files \<open>chain.pem\<close>, \<open>key-and-cert.pem\<close>, \<open>invalid.pem\<close> and \<open>large.pem\<close>.
\<close>

definition mini_Decode :: "string \<Rightarrow> pem_Block option \<times> string" where
  "mini_Decode data =
    (case data of
       t # x # rest \<Rightarrow>
         if t = CHR ''C'' then (Some \<lparr>Type = ''CERTIFICATE'', Bytes = [x]\<rparr>, rest)
         else if t = CHR ''K'' then (Some \<lparr>Type = ''PRIVATE KEY'', Bytes = [x]\<rparr>, rest)
         else (None, data)
     | _ \<Rightarrow> (None, data))"

definition mini_ParseCertificate :: "string \<Rightarrow> error + x509_Certificate" where
  "mini_ParseCertificate der =
    (case der of
       [x] \<Rightarrow>
         if (48::nat) \<le> of_char x \<and> (of_char x :: nat) \<le> 57
         then Inr \<lparr>NotAfter = (int (of_char x) - 48) * (24 * Hour), SerialNumber_String = [x],
                   Subject_String = ''CN=mini'', Issuer_String = ''CN=mini''\<rparr>
         else Inl (X509Error ''x509: malformed certificate'')
     | _ \<Rightarrow> Inl (X509Error ''x509: malformed certificate''))"

definition mini_Stat :: "string \<Rightarrow> error + FileInfo" where
  "mini_Stat fp =
    (if fp = ''chain.pem'' then Inr \<lparr>Size = 6\<rparr>
     else if fp = ''key-and-cert.pem'' then Inr \<lparr>Size = 4\<rparr>
     else if fp = ''invalid.pem'' then Inr \<lparr>Size = 16\<rparr>
     else if fp = ''large.pem'' then Inr \<lparr>Size = MaxFileSize + 1\<rparr>
     else Inl (OsError ''no such file or directory''))"

definition mini_ReadFile :: "string \<Rightarrow> error + string" where
  "mini_ReadFile fp =
    (if fp = ''chain.pem'' then Inr ''C3C1C6''
     else if fp = ''key-and-cert.pem'' then Inr ''KxC5''
     else if fp = ''invalid.pem'' then Inr ''invalid pem data''
     else Inl (OsError ''no such file or directory''))"

definition mini :: stdlib where
  "mini = \<lparr>pem_Decode = mini_Decode, x509_ParseCertificate = mini_ParseCertificate,
            os_Stat = mini_Stat, os_ReadFile = mini_ReadFile\<rparr>"

definition parser30 :: Parser where
  "parser30 = \<lparr>includeSubject = False, daysThreshold = 30\<rparr>"

text \<open>
  What a worker sends for a path: records of that path, at least one, or an error that
  names the path.
\<close>

fun tagged :: "string \<Rightarrow> error \<Rightarrow> bool" where
  "tagged fp (TimeoutParsing s) = (s = fp)"
| "tagged fp (CancelledParsing s) = (s = fp)"
| "tagged fp (FailedToParse s err) = (s = fp)"
| "tagged fp err = False"

definition outcome_for :: "string \<Rightarrow> ScanResult \<Rightarrow> bool" where
  "outcome_for fp r =
    (case Error r of
       Some err \<Rightarrow> tagged fp err \<and> CertInfos r = []
     | None \<Rightarrow> CertInfos r \<noteq> [] \<and> list_all (\<lambda>info. Path info = fp) (CertInfos r))"

text \<open>
  The shape of what a worker does on its channels: each path received is followed by one
  outcome for it, sent before the next path is received; only the last path may be left
  without an outcome, and only when the worker has returned.
\<close>

fun worker_log :: "bool \<Rightarrow> chan_event list \<Rightarrow> bool" where
  "worker_log returned [] = True"
| "worker_log returned [Recv fp] = returned"
| "worker_log returned (Recv fp # Send r # es) = (outcome_for fp r \<and> worker_log returned es)"
| "worker_log returned es = False"

fun undisturbed :: "round \<Rightarrow> bool" where
  \<comment> \<open>a round that meets neither the shutdown flag nor a cancelled send\<close>
  "undisturbed (Received fp sd rc ok) = (\<not> sd \<and> ok)"
| "undisturbed r = True"

section \<open>Properties of the model\<close>

subsection \<open>Rounding to \<open>float64\<close>\<close>

lemma width_bounds: "0 < n \<Longrightarrow> 2 ^ (width n - 1) \<le> n \<and> n < 2 ^ width n"
proof (induction n rule: width.induct)
  case (1 n)
  show ?case
  proof (cases "n div 2 = 0")
    case True
    with "1.prems" have "n = 1" by presburger
    then show ?thesis by (simp add: width.simps)
  next
    case False
    then have pos: "0 < n div 2" by simp
    from "1.prems" have n0: "n \<noteq> 0" by simp
    from "1.IH" [OF n0 pos] have lo: "2 ^ (width (n div 2) - 1) \<le> n div 2"
      and hi: "n div 2 < 2 ^ width (n div 2)" by simp_all
    have w: "width n = Suc (width (n div 2))" using n0 by (simp add: width.simps)
    have wpos: "0 < width (n div 2)" using pos by (simp add: width.simps)
    then have e: "2 ^ width (n div 2) = 2 * (2::nat) ^ (width (n div 2) - 1)"
      by (cases "width (n div 2)") simp_all
    have "2 ^ width (n div 2) \<le> 2 * (n div 2)" using lo e by simp
    also have "\<dots> \<le> n" by presburger
    finally have A: "2 ^ (width n - 1) \<le> n" using w by simp
    have "n < 2 * (n div 2 + 1)" by presburger
    also have "\<dots> \<le> 2 * 2 ^ width (n div 2)" using hi by simp
    finally have B: "n < 2 ^ width n" using w by simp
    from A B show ?thesis ..
  qed
qed

lemma rne_floor: "\<lfloor>x\<rfloor> \<le> rne x \<and> rne x \<le> \<lfloor>x\<rfloor> + 1"
  by (simp add: rne_def Let_def)

lemma rne_of_int [simp]: "rne (of_int n) = n"
  by (simp add: rne_def Let_def)

lemma rne_mono: "x \<le> y \<Longrightarrow> rne x \<le> rne y"
proof -
  assume xy: "x \<le> y"
  then have fl: "\<lfloor>x\<rfloor> \<le> \<lfloor>y\<rfloor>" by (rule floor_mono)
  show ?thesis
  proof (cases "\<lfloor>x\<rfloor> = \<lfloor>y\<rfloor>")
    case True
    then have "x - of_int \<lfloor>x\<rfloor> \<le> y - of_int \<lfloor>y\<rfloor>" using xy by simp
    then show ?thesis using True by (auto simp: rne_def Let_def)
  next
    case False
    with fl have "\<lfloor>x\<rfloor> + 1 \<le> \<lfloor>y\<rfloor>" by simp
    with rne_floor [of x] rne_floor [of y] show ?thesis by linarith
  qed
qed

lemma rne_minus: "rne (- x) = - rne x"
proof (cases "x \<in> \<int>")
  case True
  then obtain n where "x = of_int n" by (auto elim: Ints_cases)
  then have "- x = of_int (- n)" by simp
  then show ?thesis using \<open>x = of_int n\<close> by (metis rne_of_int)
next
  case False
  have ne: "x \<noteq> of_int \<lfloor>x\<rfloor>"
  proof
    assume "x = of_int \<lfloor>x\<rfloor>"
    then have "x \<in> \<int>" by (metis Ints_of_int)
    with False show False ..
  qed
  then have c: "\<lceil>x\<rceil> = \<lfloor>x\<rfloor> + 1" by (simp add: ceiling_altdef)
  have f: "\<lfloor>- x\<rfloor> = - \<lfloor>x\<rfloor> - 1" using c by (simp add: ceiling_def)
  show ?thesis
    unfolding rne_def Let_def f using ne by (auto simp: algebra_simps)
qed

lemma powi_nat: "0 \<le> e \<Longrightarrow> (2::rat) powi e = 2 ^ nat e"
  by (simp add: power_int_def)

lemma powi_neg: "(2::rat) powi (- int k) = 1 / 2 ^ k"
  by (simp add: power_int_minus inverse_eq_divide)

lemma ilog2_bounds:
  assumes "x \<noteq> 0"
  shows "2 powi ilog2 x \<le> \<bar>x\<bar> \<and> \<bar>x\<bar> < 2 powi (ilog2 x + 1)"
proof (cases "1 \<le> \<bar>x\<bar>")
  case True
  define m where "m = nat \<lfloor>\<bar>x\<bar>\<rfloor>"
  have fl: "1 \<le> \<lfloor>\<bar>x\<bar>\<rfloor>" using True by simp
  then have mpos: "0 < m" by (simp add: m_def)
  have m_int: "int m = \<lfloor>\<bar>x\<bar>\<rfloor>" using fl by (simp add: m_def)
  from width_bounds [OF mpos] have lo: "2 ^ (width m - 1) \<le> m" and hi: "m < 2 ^ width m"
    by simp_all
  have wpos: "0 < width m" using mpos by (simp add: width.simps)
  have e: "ilog2 x = int (width m) - 1" using True by (simp add: ilog2_def m_def)
  have e1: "(2::rat) powi ilog2 x = 2 ^ (width m - 1)"
    using wpos by (simp add: e powi_nat nat_diff_distrib)
  have e2: "(2::rat) powi (ilog2 x + 1) = 2 ^ width m"
    by (simp add: e)
  have mle: "(of_nat m :: rat) \<le> \<bar>x\<bar>"
  proof -
    have "(of_int (int m) :: rat) \<le> \<bar>x\<bar>" unfolding m_int by (rule of_int_floor_le)
    then show ?thesis by simp
  qed
  have mgt: "\<bar>x\<bar> < of_nat m + 1"
  proof -
    have "\<bar>x\<bar> < of_int (int m) + 1" unfolding m_int by linarith
    then show ?thesis by simp
  qed
  have "(2::rat) ^ (width m - 1) = of_nat (2 ^ (width m - 1))" by simp
  also have "\<dots> \<le> of_nat m" using lo by (simp only: of_nat_le_iff)
  finally have "(2::rat) ^ (width m - 1) \<le> of_nat m" .
  with mle have "(2::rat) ^ (width m - 1) \<le> \<bar>x\<bar>" by linarith
  then have A: "2 powi ilog2 x \<le> \<bar>x\<bar>" by (simp only: e1)
  have "Suc m \<le> 2 ^ width m" using hi by simp
  then have "(of_nat (Suc m) :: rat) \<le> of_nat (2 ^ width m)" by (simp only: of_nat_le_iff)
  then have "(of_nat m :: rat) + 1 \<le> 2 ^ width m" by simp
  with mgt have B: "\<bar>x\<bar> < 2 powi (ilog2 x + 1)" using e2 by simp
  from A B show ?thesis ..
next
  case False
  define y where "y = 1 / \<bar>x\<bar>"
  have xpos: "0 < \<bar>x\<bar>" using assms by simp
  have y1: "1 < y" using False xpos by (simp add: y_def)
  have ypos: "0 < y" using y1 by simp
  have xy: "\<bar>x\<bar> = 1 / y" by (simp add: y_def)
  define m where "m = nat \<lceil>y\<rceil>"
  have c2: "2 \<le> \<lceil>y\<rceil>" using y1 by linarith
  have m_int: "int m = \<lceil>y\<rceil>" using c2 by (simp add: m_def)
  define k where "k = width (m - 1)"
  have m1: "0 < m - 1" using c2 m_int by linarith
  from width_bounds [OF m1] have lo: "2 ^ (k - 1) \<le> m - 1" and hi: "m - 1 < 2 ^ k"
    by (simp_all add: k_def)
  have kpos: "0 < k" using m1 by (simp add: k_def width.simps)
  have e: "ilog2 x = - int k" using False by (simp add: ilog2_def k_def m_def y_def)
  have "m \<le> 2 ^ k" using hi by simp
  then have "(of_nat m :: rat) \<le> of_nat (2 ^ k)" by (simp only: of_nat_le_iff)
  then have mk: "(of_nat m :: rat) \<le> 2 ^ k" by simp
  have "y \<le> of_int \<lceil>y\<rceil>" by (rule le_of_int_ceiling)
  then have "y \<le> of_int (int m)" by (simp only: m_int)
  moreover have "of_int (int m) = (of_nat m :: rat)" by simp
  ultimately have "y \<le> 2 ^ k" using mk by linarith
  then have "1 / 2 ^ k \<le> 1 / y" using ypos by (simp add: frac_le)
  then have A: "2 powi ilog2 x \<le> \<bar>x\<bar>" by (simp add: e powi_neg xy)
  have "(of_nat (2 ^ (k - 1)) :: rat) \<le> of_nat (m - 1)" using lo by (simp only: of_nat_le_iff)
  then have "(2::rat) ^ (k - 1) \<le> of_int (int m - 1)" using m1 by (simp add: of_nat_diff)
  also have "\<dots> < y" unfolding m_int by linarith
  finally have "(2::rat) ^ (k - 1) < y" .
  then have "1 / y < 1 / 2 ^ (k - 1)" by (simp add: frac_less2)
  moreover have "(2::rat) powi (ilog2 x + 1) = 1 / 2 ^ (k - 1)"
  proof -
    have "ilog2 x + 1 = - int (k - 1)" using kpos e by simp
    then show ?thesis by (simp only: powi_neg)
  qed
  ultimately have B: "\<bar>x\<bar> < 2 powi (ilog2 x + 1)" by (simp add: xy)
  from A B show ?thesis ..
qed

lemma powi_less_imp: "(2::rat) powi a < 2 powi b \<Longrightarrow> a < b"
proof (rule ccontr)
  assume lt: "(2::rat) powi a < 2 powi b" and "\<not> a < b"
  then have "b \<le> a" by simp
  then have "(2::rat) powi b \<le> 2 powi a" by (rule power_int_increasing) simp
  with lt show False by simp
qed

lemma ilog2_unique:
  assumes "2 powi e \<le> \<bar>x\<bar>" and "\<bar>x\<bar> < 2 powi (e + 1)"
  shows "ilog2 x = e"
proof -
  have "(0::rat) < 2 powi e" by simp
  with assms(1) have "0 < \<bar>x\<bar>" by linarith
  then have x0: "x \<noteq> 0" by simp
  from ilog2_bounds [OF x0] have lo: "2 powi ilog2 x \<le> \<bar>x\<bar>"
    and hi: "\<bar>x\<bar> < 2 powi (ilog2 x + 1)" by simp_all
  have "(2::rat) powi e < 2 powi (ilog2 x + 1)" using assms(1) hi by simp
  then have a: "e < ilog2 x + 1" by (rule powi_less_imp)
  have "(2::rat) powi ilog2 x < 2 powi (e + 1)" using lo assms(2) by simp
  then have b: "ilog2 x < e + 1" by (rule powi_less_imp)
  from a b show ?thesis by simp
qed

lemma ilog2_minus: "ilog2 (- x) = ilog2 x"
  by (simp add: ilog2_def)

lemma float64_minus: "float64 (- x) = - float64 x"
  by (simp add: float64_def ilog2_minus rne_minus Let_def)

lemma float64_zero [simp]: "float64 0 = 0"
  by (simp add: float64_def)

lemma float64_exact:
  assumes m: "\<bar>m\<bar> < 2 ^ 53"
  shows "float64 (of_int m * 2 powi k) = of_int m * 2 powi k"
proof (cases "m = 0")
  case True
  then show ?thesis by simp
next
  case False
  define x :: rat where "x = of_int m * 2 powi k"
  define em where "em = ilog2 (of_int m)"
  have m0: "(of_int m :: rat) \<noteq> 0" using False by simp
  from ilog2_bounds [OF m0] have lo: "2 powi em \<le> \<bar>of_int m :: rat\<bar>"
    and hi: "\<bar>of_int m :: rat\<bar> < 2 powi (em + 1)" by (simp_all add: em_def)
  have "\<bar>of_int m :: rat\<bar> < of_int (2 ^ 53)" using m by (simp only: of_int_abs [symmetric] of_int_less_iff)
  then have "\<bar>of_int m :: rat\<bar> < 2 powi 53" by simp
  with lo have "(2::rat) powi em < 2 powi 53" by linarith
  then have em53: "em < 53" by (rule powi_less_imp)
  have kpos: "(0::rat) < 2 powi k" by simp
  have ax: "\<bar>x\<bar> = \<bar>of_int m :: rat\<bar> * 2 powi k" by (simp add: x_def abs_mult)
  have s1: "(2::rat) powi (em + k) = 2 powi em * 2 powi k" by (simp add: power_int_add)
  have s2: "(2::rat) powi (em + k + 1) = 2 powi (em + 1) * 2 powi k"
    using power_int_add [of "2::rat" "em + 1" k] by (simp add: add.commute add.left_commute)
  have "2 powi (em + k) \<le> \<bar>x\<bar>" unfolding s1 ax using lo kpos by simp
  moreover have "\<bar>x\<bar> < 2 powi (em + k + 1)" unfolding s2 ax using hi kpos by simp
  ultimately have e: "ilog2 x = em + k" by (rule ilog2_unique)
  define j where "j = nat (52 - em)"
  have j: "int j = 52 - em" using em53 by (simp add: j_def)
  have s3: "(2::rat) powi k = 2 powi (em + k - 52) * 2 ^ j"
  proof -
    have keq: "(em + k - 52) + int j = k" using j by simp
    have "(2::rat) powi k = 2 powi ((em + k - 52) + int j)" by (simp only: keq)
    also have "\<dots> = 2 powi (em + k - 52) * 2 powi (int j)" by (rule power_int_add) simp
    finally show ?thesis by simp
  qed
  have qpos: "(0::rat) < 2 powi (em + k - 52)" by simp
  have "x / 2 powi (em + k - 52) = of_int m * 2 ^ j"
    unfolding x_def using qpos by (subst s3) simp
  also have "\<dots> = of_int (m * 2 ^ j)" by simp
  finally have d: "x / 2 powi (em + k - 52) = of_int (m * 2 ^ j)" .
  have x0: "x \<noteq> 0" using False by (simp add: x_def)
  have "float64 x = of_int (rne (x / 2 powi (em + k - 52))) * 2 powi (em + k - 52)"
    using x0 by (simp add: float64_def e Let_def)
  also have "\<dots> = of_int (m * 2 ^ j) * 2 powi (em + k - 52)" by (simp only: d rne_of_int)
  also have "\<dots> = of_int m * (2 powi (em + k - 52) * 2 ^ j)" by simp
  also have "\<dots> = x" by (simp only: s3 [symmetric] x_def)
  finally show ?thesis by (simp only: x_def)
qed

lemma float64_of_int: "\<bar>n\<bar> < 2 ^ 53 \<Longrightarrow> float64 (of_int n) = of_int n"
  using float64_exact [of n 0] by simp

lemma float64_pos_bounds:
  assumes "0 < x"
  shows "2 powi ilog2 x \<le> float64 x \<and> float64 x \<le> 2 powi (ilog2 x + 1)"
proof -
  define e where "e = ilog2 x"
  define q :: rat where "q = 2 powi (e - 52)"
  have x0: "x \<noteq> 0" using assms by simp
  from ilog2_bounds [OF x0] assms have lo: "2 powi e \<le> x" and hi: "x < 2 powi (e + 1)"
    by (simp_all add: e_def)
  have qpos: "0 < q" by (simp add: q_def)
  have s1: "(2::rat) powi e = 2 ^ 52 * q"
  proof -
    have "(2::rat) powi (52 + (e - 52)) = 2 powi 52 * 2 powi (e - 52)" by (rule power_int_add) simp
    then show ?thesis by (simp add: q_def)
  qed
  have s2: "(2::rat) powi (e + 1) = 2 ^ 53 * q"
  proof -
    have "(2::rat) powi (53 + (e - 52)) = 2 powi 53 * 2 powi (e - 52)" by (rule power_int_add) simp
    moreover have "53 + (e - 52) = e + 1" by simp
    ultimately show ?thesis by (simp add: q_def)
  qed
  have "of_int (2 ^ 52) \<le> x / q" using lo qpos by (simp add: s1 pos_le_divide_eq)
  then have "rne (of_int (2 ^ 52)) \<le> rne (x / q)" by (rule rne_mono)
  then have a: "2 ^ 52 \<le> rne (x / q)" by (simp only: rne_of_int)
  have "x / q \<le> of_int (2 ^ 53)" using hi qpos by (simp add: s2 pos_divide_le_eq)
  then have "rne (x / q) \<le> rne (of_int (2 ^ 53))" by (rule rne_mono)
  then have b: "rne (x / q) \<le> 2 ^ 53" by (simp only: rne_of_int)
  have f: "float64 x = of_int (rne (x / q)) * q"
    using x0 by (simp add: float64_def e_def q_def Let_def)
  have "(of_int (2 ^ 52) :: rat) \<le> of_int (rne (x / q))" using a by (simp only: of_int_le_iff)
  then have "2 ^ 52 * q \<le> of_int (rne (x / q)) * q" using qpos by simp
  then have A: "2 powi e \<le> float64 x" by (simp only: s1 f)
  have "(of_int (rne (x / q)) :: rat) \<le> of_int (2 ^ 53)" using b by (simp only: of_int_le_iff)
  then have "of_int (rne (x / q)) * q \<le> 2 ^ 53 * q" using qpos by simp
  then have B: "float64 x \<le> 2 powi (e + 1)" by (simp only: s2 f)
  from A B show ?thesis by (simp add: e_def)
qed

lemma float64_nonneg: "0 \<le> x \<Longrightarrow> 0 \<le> float64 x"
proof (cases "x = 0")
  case False
  assume "0 \<le> x"
  with False have "0 < x" by simp
  from float64_pos_bounds [OF this] have "2 powi ilog2 x \<le> float64 x" ..
  moreover have "(0::rat) < 2 powi ilog2 x" by simp
  ultimately show ?thesis by linarith
qed simp

lemma float64_mono_pos:
  assumes "0 < x" and "x \<le> y"
  shows "float64 x \<le> float64 y"
proof -
  have ypos: "0 < y" using assms by simp
  have x0: "x \<noteq> 0" and y0: "y \<noteq> 0" using assms by simp_all
  from ilog2_bounds [OF x0] assms have xlo: "2 powi ilog2 x \<le> x" by simp
  from ilog2_bounds [OF y0] ypos have yhi: "y < 2 powi (ilog2 y + 1)" by simp
  have "(2::rat) powi ilog2 x < 2 powi (ilog2 y + 1)" using xlo yhi assms(2) by linarith
  then have le: "ilog2 x < ilog2 y + 1" by (rule powi_less_imp)
  show ?thesis
  proof (cases "ilog2 x = ilog2 y")
    case True
    define q :: rat where "q = 2 powi (ilog2 y - 52)"
    have qpos: "0 < q" by (simp add: q_def)
    have "x / q \<le> y / q" using assms(2) qpos by (simp add: divide_right_mono)
    then have "rne (x / q) \<le> rne (y / q)" by (rule rne_mono)
    then have "(of_int (rne (x / q)) :: rat) \<le> of_int (rne (y / q))" by (simp only: of_int_le_iff)
    then have "of_int (rne (x / q)) * q \<le> of_int (rne (y / q)) * q" using qpos by simp
    then show ?thesis using x0 y0 True by (simp add: float64_def q_def Let_def)
  next
    case False
    with le have "ilog2 x + 1 \<le> ilog2 y" by simp
    then have "(2::rat) powi (ilog2 x + 1) \<le> 2 powi ilog2 y" by (rule power_int_increasing) simp
    moreover from float64_pos_bounds [OF assms(1)] have "float64 x \<le> 2 powi (ilog2 x + 1)" ..
    moreover from float64_pos_bounds [OF ypos] have "2 powi ilog2 y \<le> float64 y" ..
    ultimately show ?thesis by linarith
  qed
qed

lemma float64_mono:
  assumes "x \<le> y"
  shows "float64 x \<le> float64 y"
proof -
  consider "0 < x" | "x \<le> 0" "0 \<le> y" | "y < 0" by linarith
  then show ?thesis
  proof cases
    case 1
    then show ?thesis using assms by (rule float64_mono_pos)
  next
    case 2
    from 2(1) have "0 \<le> float64 (- x)" by (intro float64_nonneg) simp
    then have "float64 x \<le> 0" by (simp add: float64_minus)
    moreover have "0 \<le> float64 y" using 2(2) by (rule float64_nonneg)
    ultimately show ?thesis by linarith
  next
    case 3
    then have "0 < - y" and "- y \<le> - x" using assms by simp_all
    then have "float64 (- y) \<le> float64 (- x)" by (rule float64_mono_pos)
    then show ?thesis by (simp add: float64_minus)
  qed
qed

subsection \<open>Days until expiry\<close>

lemma go_int_of_int [simp]: "go_int (of_int n) = n"
  by (simp add: go_int_def)

lemma go_int_mono:
  assumes "x \<le> y"
  shows "go_int x \<le> go_int y"
proof -
  consider "0 \<le> x" | "x < 0" "0 \<le> y" | "y < 0" by linarith
  then show ?thesis
  proof cases
    case 1
    then show ?thesis using assms by (simp add: go_int_def floor_mono)
  next
    case 2
    have "\<lceil>x\<rceil> \<le> 0" using 2(1) by (simp add: ceiling_le_iff)
    moreover have "0 \<le> \<lfloor>y\<rfloor>" using 2(2) by simp
    ultimately have "\<lceil>x\<rceil> \<le> \<lfloor>y\<rfloor>" by linarith
    moreover have "go_int x = \<lceil>x\<rceil>" using 2(1) by (simp add: go_int_def)
    moreover have "go_int y = \<lfloor>y\<rfloor>" using 2(2) by (simp add: go_int_def)
    ultimately show ?thesis by simp
  next
    case 3
    then show ?thesis using assms by (simp add: go_int_def ceiling_mono)
  qed
qed

lemma go_int_minus: "go_int (- x) = - go_int x"
  by (auto simp: go_int_def ceiling_def)

lemma sdiv_minus: "(- d) sdiv Hour = - (d sdiv Hour)"
  by (simp add: signed_divide_int_def sgn_minus)

lemma smod_minus: "(- d) smod Hour = - (d smod Hour)"
  by (simp add: signed_modulo_int_def sgn_minus)

lemma float64_neg_sum: "float64 (- a - b) = - float64 (a + b)"
  using float64_minus [of "a + b"] by simp

lemma Hours_minus: "Hours (- d) = - Hours d"
  by (simp add: Hours_def Let_def sdiv_minus smod_minus float64_minus float64_neg_sum)

lemma daysUntil_minus: "daysUntil (- d) = - daysUntil d"
  by (simp add: daysUntil_def Hours_minus float64_minus go_int_minus)

lemma sdiv_nonneg: "0 \<le> d \<Longrightarrow> d sdiv Hour = d div Hour"
  by (simp add: signed_divide_int_def Hour_def sgn_if)

lemma smod_nonneg: "0 \<le> d \<Longrightarrow> d smod Hour = d mod Hour"
  by (simp add: signed_modulo_int_def Hour_def sgn_if)

lemma float64_one [simp]: "float64 1 = 1"
  using float64_of_int [of 1] by simp

text \<open>Bounds on the float64 value of Hours for a non-negative duration.\<close>

lemma Hours_nonneg_bounds:
  assumes d0: "0 \<le> d" and dmax: "d \<le> maxDuration + 1"
  shows "of_int (d div Hour) \<le> Hours d \<and> Hours d \<le> of_int (d div Hour + 1)"
proof -
  define hour where "hour = d div Hour"
  define nsec where "nsec = d mod Hour"
  have h0: "0 \<le> hour" using d0 by (simp add: hour_def Hour_def pos_imp_zdiv_nonneg_iff)
  have "hour \<le> (maxDuration + 1) div Hour" unfolding hour_def using dmax
    by (intro zdiv_mono1) (simp_all add: Hour_def)
  then have hmax: "hour \<le> 2562047" by (simp add: maxDuration_def Hour_def)
  have n0: "0 \<le> nsec" and nH: "nsec < Hour" by (simp_all add: nsec_def Hour_def)
  have fh: "float64 (of_int hour) = of_int hour" using h0 hmax by (intro float64_of_int) simp
  have fh1: "float64 (of_int (hour + 1)) = of_int (hour + 1)"
    using h0 hmax by (intro float64_of_int) simp
  have fn: "float64 (of_int nsec) = of_int nsec"
    using n0 nH by (intro float64_of_int) (simp add: Hour_def)
  define t where "t = float64 (of_int nsec / 3600000000000)"
  have "(0::rat) \<le> of_int nsec / 3600000000000" using n0 by simp
  then have t0: "0 \<le> t" unfolding t_def by (rule float64_nonneg)
  have "of_int nsec / 3600000000000 \<le> (1::rat)" using nH by (simp add: Hour_def)
  then have "t \<le> float64 1" unfolding t_def by (rule float64_mono)
  then have t1: "t \<le> 1" by simp
  have H: "Hours d = float64 (of_int hour + t)"
    using d0 by (simp add: Hours_def Let_def sdiv_nonneg smod_nonneg hour_def nsec_def fh [unfolded hour_def] fn [unfolded nsec_def] t_def)
  have "float64 (of_int hour) \<le> float64 (of_int hour + t)" using t0 by (intro float64_mono) simp
  then have A: "of_int hour \<le> Hours d" by (simp only: fh H)
  have "of_int hour + t \<le> of_int (hour + 1)" using t1 by simp
  then have "float64 (of_int hour + t) \<le> float64 (of_int (hour + 1))" by (rule float64_mono)
  then have B: "Hours d \<le> of_int (hour + 1)" by (simp only: fh1 H)
  from A B show ?thesis by (simp add: hour_def)
qed

lemma daysUntil_nonneg_bounds:
  assumes d0: "0 \<le> d" and dmax: "d \<le> maxDuration + 1"
  shows "d div (24 * Hour) \<le> daysUntil d \<and> daysUntil d \<le> d div (24 * Hour) + 1"
proof -
  define hour where "hour = d div Hour"
  define T where "T = d div (24 * Hour)"
  have T: "T = hour div 24" by (simp add: T_def hour_def Hour_def zdiv_zmult2_eq)
  have h0: "0 \<le> hour" using d0 by (simp add: hour_def Hour_def pos_imp_zdiv_nonneg_iff)
  have "hour \<le> (maxDuration + 1) div Hour" unfolding hour_def using dmax
    by (intro zdiv_mono1) (simp_all add: Hour_def)
  then have hmax: "hour \<le> 2562047" by (simp add: maxDuration_def Hour_def)
  have T0: "0 \<le> T" and Tmax: "T \<le> 106751" using h0 hmax by (simp_all add: T)
  from Hours_nonneg_bounds [OF d0 dmax]
  have lo: "of_int hour \<le> Hours d" and hi: "Hours d \<le> of_int (hour + 1)"
    by (simp_all add: hour_def)
  have fT: "float64 (of_int T) = of_int T" using T0 Tmax by (intro float64_of_int) simp
  have fT1: "float64 (of_int (T + 1)) = of_int (T + 1)" using T0 Tmax by (intro float64_of_int) simp
  have "24 * T \<le> hour" unfolding T by presburger
  then have "(of_int (24 * T) :: rat) \<le> of_int hour" by (simp only: of_int_le_iff)
  with lo have "of_int T \<le> Hours d / 24" by simp
  then have "float64 (of_int T) \<le> float64 (Hours d / 24)" by (rule float64_mono)
  then have "go_int (of_int T) \<le> go_int (float64 (Hours d / 24))"
    unfolding fT by (rule go_int_mono)
  then have A: "T \<le> daysUntil d" by (simp only: daysUntil_def go_int_of_int)
  have "hour + 1 \<le> 24 * (T + 1)" unfolding T by presburger
  then have "(of_int (hour + 1) :: rat) \<le> of_int (24 * (T + 1))" by (simp only: of_int_le_iff)
  with hi have "Hours d / 24 \<le> of_int (T + 1)" by simp
  then have "float64 (Hours d / 24) \<le> float64 (of_int (T + 1))" by (rule float64_mono)
  then have "go_int (float64 (Hours d / 24)) \<le> go_int (of_int (T + 1))"
    unfolding fT1 by (rule go_int_mono)
  then have B: "daysUntil d \<le> T + 1" by (simp only: daysUntil_def go_int_of_int)
  from A B show ?thesis by (simp add: T_def)
qed

lemma daysUntil_exact_nonneg:
  assumes d0: "0 \<le> d" and dlt: "d < 64 * (24 * Hour)"
  shows "daysUntil d = d div (24 * Hour)"
proof -
  define hour where "hour = d div Hour"
  define nsec where "nsec = d mod Hour"
  define T where "T = d div (24 * Hour)"
  have dmax: "d \<le> maxDuration + 1" using dlt by (simp add: maxDuration_def Hour_def)
  have T: "T = hour div 24" by (simp add: T_def hour_def Hour_def zdiv_zmult2_eq)
  have h0: "0 \<le> hour" using d0 by (simp add: hour_def Hour_def pos_imp_zdiv_nonneg_iff)
  have "hour < 64 * 24" unfolding hour_def using dlt by (simp add: Hour_def div_less_iff_less_mult)
  then have hmax: "hour \<le> 1535" by simp
  have T0: "0 \<le> T" and Tmax: "T \<le> 63" using h0 hmax by (simp_all add: T)
  have n0: "0 \<le> nsec" and nH: "nsec < Hour" by (simp_all add: nsec_def Hour_def)
  have fh: "float64 (of_int hour) = of_int hour" using h0 hmax by (intro float64_of_int) simp
  have fn: "float64 (of_int nsec) = of_int nsec"
    using n0 nH by (intro float64_of_int) (simp add: Hour_def)
  define t where "t = float64 (of_int nsec / 3600000000000)"
  have H: "Hours d = float64 (of_int hour + t)"
    using d0 by (simp add: Hours_def Let_def sdiv_nonneg smod_nonneg hour_def nsec_def
        fh [unfolded hour_def] fn [unfolded nsec_def] t_def)
  \<comment> \<open>the fraction of an hour stays at least \<open>2\<^sup>-\<^sup>4\<^sup>2\<close> below one\<close>
  have e1: "float64 (of_int (2 ^ 42 - 1) * 2 powi (- 42)) = of_int (2 ^ 42 - 1) * 2 powi (- 42)"
    by (rule float64_exact) simp
  have "nsec \<le> 3599999999999" using nH by (simp add: Hour_def)
  then have "(of_int nsec :: rat) \<le> of_int 3599999999999" by (simp only: of_int_le_iff)
  then have "(of_int nsec :: rat) \<le> 3599999999999" by simp
  then have "of_int nsec / 3600000000000 \<le> (of_int (2 ^ 42 - 1) * 2 powi (- 42) :: rat)"
    by (simp add: power_int_minus field_simps)
  then have "t \<le> float64 (of_int (2 ^ 42 - 1) * 2 powi (- 42))" unfolding t_def by (rule float64_mono)
  then have t1: "t \<le> 1 - 1 / 2 ^ 42" unfolding e1 by (simp add: power_int_minus field_simps)
  \<comment> \<open>so does the sum, which is below \<open>2\<^sup>1\<^sup>1\<close>\<close>
  have e2: "float64 (of_int ((hour + 1) * 2 ^ 42 - 1) * 2 powi (- 42)) =
      of_int ((hour + 1) * 2 ^ 42 - 1) * 2 powi (- 42)"
    using h0 hmax by (intro float64_exact) simp
  have r2: "(of_int ((hour + 1) * 2 ^ 42 - 1) * 2 powi (- 42) :: rat) = of_int hour + 1 - 1 / 2 ^ 42"
    by (simp add: power_int_minus field_simps)
  have "of_int hour + t \<le> of_int hour + 1 - 1 / 2 ^ 42" using t1 by simp
  then have "float64 (of_int hour + t) \<le> float64 (of_int hour + 1 - 1 / 2 ^ 42)" by (rule float64_mono)
  then have s1: "Hours d \<le> of_int hour + 1 - 1 / 2 ^ 42" unfolding H using e2 by (simp only: r2)
  \<comment> \<open>dividing by 24 keeps the quotient at least \<open>2\<^sup>-\<^sup>4\<^sup>7\<close> below \<open>T + 1\<close>\<close>
  have e3: "float64 (of_int ((T + 1) * 2 ^ 47 - 1) * 2 powi (- 47)) =
      of_int ((T + 1) * 2 ^ 47 - 1) * 2 powi (- 47)"
    using T0 Tmax by (intro float64_exact) simp
  have r3: "(of_int ((T + 1) * 2 ^ 47 - 1) * 2 powi (- 47) :: rat) = of_int T + 1 - 1 / 2 ^ 47"
    by (simp add: power_int_minus field_simps)
  have "hour + 1 \<le> 24 * (T + 1)" unfolding T by presburger
  then have "(of_int (hour + 1) :: rat) \<le> of_int (24 * (T + 1))" by (simp only: of_int_le_iff)
  then have "(of_int hour :: rat) + 1 \<le> 24 * (of_int T + 1)" by simp
  with s1 have "Hours d \<le> 24 * (of_int T + 1) - 1 / 2 ^ 42" by linarith
  then have "Hours d / 24 \<le> of_int T + 1 - 1 / 2 ^ 47" by (simp add: field_simps)
  then have "float64 (Hours d / 24) \<le> float64 (of_int T + 1 - 1 / 2 ^ 47)" by (rule float64_mono)
  then have u1: "float64 (Hours d / 24) \<le> of_int T + 1 - 1 / 2 ^ 47" using e3 by (simp only: r3)
  have "float64 (Hours d / 24) < of_int (T + 1)"
  proof -
    have "(of_int T :: rat) + 1 - 1 / 2 ^ 47 < of_int T + 1" by simp
    with u1 show ?thesis by simp
  qed
  then have fl: "\<lfloor>float64 (Hours d / 24)\<rfloor> < T + 1" by (simp only: floor_less_iff)
  from daysUntil_nonneg_bounds [OF d0 dmax] have lo: "T \<le> daysUntil d" by (simp add: T_def)
  have "0 \<le> Hours d" using Hours_nonneg_bounds [OF d0 dmax] h0 by (simp add: hour_def)
  then have "0 \<le> float64 (Hours d / 24)" by (intro float64_nonneg) simp
  then have "daysUntil d = \<lfloor>float64 (Hours d / 24)\<rfloor>" by (simp add: daysUntil_def go_int_def)
  with fl lo show ?thesis by (simp add: T_def)
qed

lemma daysUntil_whole_days:
  assumes "0 \<le> k" and "k \<le> 106751"
  shows "daysUntil (k * (24 * Hour)) = k"
proof -
  have d0: "0 \<le> k * (24 * Hour)" using assms by (simp add: Hour_def)
  have h: "(k * (24 * Hour)) div Hour = 24 * k" by (simp add: Hour_def)
  have n: "(k * (24 * Hour)) mod Hour = 0" by (simp add: Hour_def)
  have f1: "float64 (of_int (24 * k)) = of_int (24 * k)" using assms by (intro float64_of_int) simp
  have f2: "float64 (of_int k) = of_int k" using assms by (intro float64_of_int) simp
  have "Hours (k * (24 * Hour)) = of_int (24 * k)"
    using d0 by (simp add: Hours_def Let_def sdiv_nonneg smod_nonneg h n f1 del: of_int_mult)
  then have "Hours (k * (24 * Hour)) / 24 = of_int k" by simp
  then show ?thesis by (simp add: daysUntil_def f2)
qed

lemma Sub_range: "minDuration \<le> Sub t u \<and> Sub t u \<le> maxDuration"
  by (simp add: Sub_def minDuration_def maxDuration_def)

lemma Sub_exact: "minDuration \<le> t - u \<Longrightarrow> t - u \<le> maxDuration \<Longrightarrow> Sub t u = t - u"
  by (simp add: Sub_def)

lemma sdiv_day_nonneg: "0 \<le> d \<Longrightarrow> d sdiv (24 * Hour) = d div (24 * Hour)"
  by (simp add: signed_divide_int_def Hour_def sgn_if)

lemma sdiv_day_minus: "(- d) sdiv (24 * Hour) = - (d sdiv (24 * Hour))"
  by (simp add: signed_divide_int_def sgn_minus)

lemma daysUntil_exact:
  assumes "\<bar>d\<bar> < 64 * (24 * Hour)"
  shows "daysUntil d = d sdiv (24 * Hour)"
proof (cases "0 \<le> d")
  case True
  then show ?thesis using assms by (simp add: daysUntil_exact_nonneg sdiv_day_nonneg)
next
  case False
  then have n: "0 \<le> - d" and m: "- d < 64 * (24 * Hour)" using assms by simp_all
  have a: "daysUntil (- d) = (- d) div (24 * Hour)" using n m by (rule daysUntil_exact_nonneg)
  have b: "(- d) sdiv (24 * Hour) = (- d) div (24 * Hour)" using n by (rule sdiv_day_nonneg)
  have "daysUntil d = - daysUntil (- d)" by (simp add: daysUntil_minus)
  also have "\<dots> = - ((- d) sdiv (24 * Hour))" by (simp only: a b)
  also have "\<dots> = d sdiv (24 * Hour)" by (simp only: sdiv_day_minus minus_minus)
  finally show ?thesis .
qed

lemma daysUntil_abs_bounds:
  assumes "minDuration \<le> d" and "d \<le> maxDuration"
  shows "\<bar>d\<bar> div (24 * Hour) \<le> \<bar>daysUntil d\<bar> \<and> \<bar>daysUntil d\<bar> \<le> \<bar>d\<bar> div (24 * Hour) + 1
    \<and> 0 \<le> d * daysUntil d"
proof (cases "0 \<le> d")
  case True
  then have b: "d div (24 * Hour) \<le> daysUntil d \<and> daysUntil d \<le> d div (24 * Hour) + 1"
    using assms(2) by (intro daysUntil_nonneg_bounds) simp_all
  have "0 \<le> d div (24 * Hour)" using True by (simp add: Hour_def pos_imp_zdiv_nonneg_iff)
  with b have "0 \<le> daysUntil d" by simp
  then show ?thesis using b True by simp
next
  case False
  then have n: "0 \<le> - d" and m: "- d \<le> maxDuration + 1"
    using assms(1) by (simp_all add: minDuration_def maxDuration_def)
  from daysUntil_nonneg_bounds [OF n m]
  have b: "(- d) div (24 * Hour) \<le> - daysUntil d \<and> - daysUntil d \<le> (- d) div (24 * Hour) + 1"
    by (simp add: daysUntil_minus)
  have "0 \<le> (- d) div (24 * Hour)" using n by (simp add: Hour_def pos_imp_zdiv_nonneg_iff)
  with b have le0: "daysUntil d \<le> 0" by simp
  have "0 \<le> (- d) * (- daysUntil d)" using n le0 by (intro mult_nonneg_nonneg) simp_all
  then have "0 \<le> d * daysUntil d" by simp
  moreover have "\<bar>d\<bar> = - d" using False by simp
  moreover have "\<bar>daysUntil d\<bar> = - daysUntil d" using le0 by simp
  ultimately show ?thesis using b by simp
qed

lemma rne_eval:
  assumes "of_int n - 1 / 2 < x" and "x < of_int n + 1 / 2"
  shows "rne x = n"
proof -
  have "n - 1 \<le> \<lfloor>x\<rfloor>" using assms(1) by (simp add: le_floor_iff)
  moreover have "\<lfloor>x\<rfloor> < n + 1"
  proof -
    have "x < of_int (n + 1)" using assms(2) by simp
    then show ?thesis by (simp only: floor_less_iff)
  qed
  ultimately consider "\<lfloor>x\<rfloor> = n" | "\<lfloor>x\<rfloor> = n - 1" by linarith
  then show ?thesis
  proof cases
    case 1
    then show ?thesis using assms(2) by (simp add: rne_def Let_def)
  next
    case 2
    then show ?thesis using assms(1) by (simp add: rne_def Let_def)
  qed
qed

lemma float64_eval:
  assumes "2 powi e \<le> \<bar>x\<bar>" and "\<bar>x\<bar> < 2 powi (e + 1)"
  shows "float64 x = of_int (rne (x / 2 powi (e - 52))) * 2 powi (e - 52)"
proof -
  have "(0::rat) < 2 powi e" by simp
  with assms(1) have "0 < \<bar>x\<bar>" by linarith
  then have "x \<noteq> 0" by simp
  then show ?thesis using ilog2_unique [OF assms] by (simp add: float64_def Let_def)
qed

text \<open>
  The \<open>float64\<close> sum in \<open>Hours\<close> can round up to the next whole hour: one nanosecond
  short of 365 days already counts as 365 days.
\<close>

lemma float64_8760: "float64 (8760 - 1 / 2 ^ 41) = 8760"
proof -
  have "float64 (8760 - 1 / 2 ^ 41) =
      of_int (rne ((8760 - 1 / 2 ^ 41) / 2 powi (13 - 52))) * 2 powi (13 - 52)"
    by (rule float64_eval) simp_all
  also have "rne ((8760 - 1 / 2 ^ 41) / 2 powi (13 - 52)) = 4815860929658880"
    by (rule rne_eval) (simp_all add: power_int_minus)
  also have "of_int 4815860929658880 * 2 powi (13 - 52) = (8760::rat)"
    by (simp add: power_int_minus)
  finally show ?thesis .
qed

lemma daysUntil_rounds_up: "daysUntil (365 * (24 * Hour) - 1) = 365"
proof -
  define d :: int where "d = 365 * (24 * Hour) - 1"
  have d0: "0 \<le> d" and dmax: "d \<le> maxDuration + 1"
    by (simp_all add: d_def Hour_def maxDuration_def)
  have hour: "d sdiv Hour = 8759" and nsec: "d smod Hour = 3599999999999"
    using d0 by (simp_all add: sdiv_nonneg smod_nonneg) (simp_all add: d_def Hour_def)
  have fh: "float64 (of_int 8759) = of_int 8759" by (rule float64_of_int) simp
  have fn: "float64 (of_int 3599999999999) = of_int 3599999999999" by (rule float64_of_int) simp
  define t :: rat where "t = float64 (3599999999999 / 3600000000000)"
  have H: "Hours d = float64 (8759 + t)"
    using fh fn by (simp add: Hours_def Let_def hour nsec t_def)
  have e: "float64 (of_int (2 ^ 41 - 1) * 2 powi (- 41)) = of_int (2 ^ 41 - 1) * 2 powi (- 41)"
    by (rule float64_exact) simp
  have "(of_int (2 ^ 41 - 1) * 2 powi (- 41) :: rat) \<le> 3599999999999 / 3600000000000"
    by (simp add: power_int_minus)
  then have "float64 (of_int (2 ^ 41 - 1) * 2 powi (- 41)) \<le> t" unfolding t_def by (rule float64_mono)
  then have "1 - 1 / 2 ^ 41 \<le> t" unfolding e by (simp add: power_int_minus)
  then have "8760 - 1 / 2 ^ 41 \<le> 8759 + t" by simp
  then have "float64 (8760 - 1 / 2 ^ 41) \<le> float64 (8759 + t)" by (rule float64_mono)
  then have lo: "8760 \<le> Hours d" by (simp only: float64_8760 H)
  from Hours_nonneg_bounds [OF d0 dmax] have "Hours d \<le> of_int (d div Hour + 1)" ..
  moreover have "d div Hour = 8759" by (simp add: d_def Hour_def)
  ultimately have "Hours d \<le> 8760" by simp
  with lo have "Hours d = 8760" by simp
  then have "Hours d / 24 = of_int 365" by simp
  moreover have "float64 (of_int 365) = of_int 365" by (rule float64_of_int) simp
  ultimately have "daysUntil d = 365" by (simp only: daysUntil_def go_int_of_int)
  then show ?thesis by (simp only: d_def)
qed

subsection \<open>Records built by \<open>buildCertificateInfo\<close>\<close>

lemma buildCertificateInfo_fst:
  "fst (buildCertificateInfo p fp cert w) = certificateInfoAt (readings w (reads w)) p fp cert"
  by (simp add: buildCertificateInfo_def time_Now_def)

lemma buildCertificateInfo_snd:
  "snd (buildCertificateInfo p fp cert w) = w\<lparr>reads := Suc (reads w)\<rparr>"
  by (simp add: buildCertificateInfo_def time_Now_def)

lemma certificateInfoAt_simps [simp]:
  "Path (certificateInfoAt now p fp cert) = fp"
  "ExpirationDate (certificateInfoAt now p fp cert) = NotAfter cert"
  "DaysUntilExpiry (certificateInfoAt now p fp cert) = daysUntil (Sub (NotAfter cert) now)"
  "IsExpired (certificateInfoAt now p fp cert) = (NotAfter cert < now)"
  "IsExpiringSoon (certificateInfoAt now p fp cert) =
     (daysUntil (Sub (NotAfter cert) now) \<le> daysThreshold p \<and> 0 \<le> daysUntil (Sub (NotAfter cert) now))"
  "SerialNumber (certificateInfoAt now p fp cert) = SerialNumber_String cert"
  by (simp_all add: certificateInfoAt_def Let_def Before_def)

text \<open>
  C3. A record is flagged as expiring soon exactly when its days until expiry lie
  between 0 and the threshold of the parser, both included.
\<close>

theorem C3_expiring_soon_iff:
  "IsExpiringSoon (fst (buildCertificateInfo p fp cert w)) \<longleftrightarrow>
     0 \<le> DaysUntilExpiry (fst (buildCertificateInfo p fp cert w)) \<and>
     DaysUntilExpiry (fst (buildCertificateInfo p fp cert w)) \<le> daysThreshold p"
  by (auto simp: buildCertificateInfo_fst)

text \<open>
  With threshold 30, certificates that expire 90, 15 and 180 whole days after the
  sampled time get 90, 15 and 180 days and the flags false, true, false.
\<close>

theorem C3_expiring_soon_examples:
  "DaysUntilExpiry (fst (buildCertificateInfo \<lparr>includeSubject = False, daysThreshold = 30\<rparr> ''chain.pem''
      \<lparr>NotAfter = 90 * (24 * Hour), SerialNumber_String = ''1'', Subject_String = ''O=Test Org'',
        Issuer_String = ''O=Test Org''\<rparr> (frozen_clock 0))) = 90
   \<and> \<not> IsExpiringSoon (fst (buildCertificateInfo \<lparr>includeSubject = False, daysThreshold = 30\<rparr> ''chain.pem''
      \<lparr>NotAfter = 90 * (24 * Hour), SerialNumber_String = ''1'', Subject_String = ''O=Test Org'',
        Issuer_String = ''O=Test Org''\<rparr> (frozen_clock 0)))
   \<and> DaysUntilExpiry (fst (buildCertificateInfo \<lparr>includeSubject = False, daysThreshold = 30\<rparr> ''chain.pem''
      \<lparr>NotAfter = 15 * (24 * Hour), SerialNumber_String = ''1'', Subject_String = ''O=Test Org'',
        Issuer_String = ''O=Test Org''\<rparr> (frozen_clock 0))) = 15
   \<and> IsExpiringSoon (fst (buildCertificateInfo \<lparr>includeSubject = False, daysThreshold = 30\<rparr> ''chain.pem''
      \<lparr>NotAfter = 15 * (24 * Hour), SerialNumber_String = ''1'', Subject_String = ''O=Test Org'',
        Issuer_String = ''O=Test Org''\<rparr> (frozen_clock 0)))
   \<and> DaysUntilExpiry (fst (buildCertificateInfo \<lparr>includeSubject = False, daysThreshold = 30\<rparr> ''chain.pem''
      \<lparr>NotAfter = 180 * (24 * Hour), SerialNumber_String = ''1'', Subject_String = ''O=Test Org'',
        Issuer_String = ''O=Test Org''\<rparr> (frozen_clock 0))) = 180
   \<and> \<not> IsExpiringSoon (fst (buildCertificateInfo \<lparr>includeSubject = False, daysThreshold = 30\<rparr> ''chain.pem''
      \<lparr>NotAfter = 180 * (24 * Hour), SerialNumber_String = ''1'', Subject_String = ''O=Test Org'',
        Issuer_String = ''O=Test Org''\<rparr> (frozen_clock 0)))"
proof -
  have s: "Sub (k * (24 * Hour)) 0 = k * (24 * Hour)" if "0 \<le> k" "k \<le> 106751" for k
    using that by (simp add: Sub_def minDuration_def maxDuration_def Hour_def)
  have d: "DaysUntilExpiry (fst (buildCertificateInfo p fp
      \<lparr>NotAfter = k * (24 * Hour), SerialNumber_String = sn, Subject_String = su, Issuer_String = i\<rparr>
      (frozen_clock 0))) = k" if "0 \<le> k" "k \<le> 106751" for k p fp sn su i
    using that by (simp add: buildCertificateInfo_fst frozen_clock_def s daysUntil_whole_days)
  show ?thesis
    unfolding C3_expiring_soon_iff using d [of 90] d [of 15] d [of 180] by simp
qed

text \<open>
  C10. A certificate that expired less than 24 hours before the sampled time gets a
  record that is expired, has zero days until expiry and, for every threshold that is
  not negative, is expiring soon as well.
\<close>

theorem C10_expired_within_a_day:
  assumes "NotAfter cert < readings w (reads w)"
    and "readings w (reads w) - NotAfter cert < 24 * Hour"
  shows "IsExpired (fst (buildCertificateInfo p fp cert w))
    \<and> DaysUntilExpiry (fst (buildCertificateInfo p fp cert w)) = 0
    \<and> (0 \<le> daysThreshold p \<longrightarrow> IsExpiringSoon (fst (buildCertificateInfo p fp cert w)))"
proof -
  define d where "d = NotAfter cert - readings w (reads w)"
  have neg: "d < 0" and small: "- (24 * Hour) < d" using assms by (simp_all add: d_def)
  have "Sub (NotAfter cert) (readings w (reads w)) = d"
    unfolding d_def using neg small
    by (intro Sub_exact) (simp_all add: d_def minDuration_def maxDuration_def Hour_def)
  moreover have "daysUntil d = d sdiv (24 * Hour)"
    using neg small by (intro daysUntil_exact) (simp add: Hour_def)
  moreover have "d sdiv (24 * Hour) = 0"
    using neg small by (simp add: signed_divide_int_def Hour_def)
  ultimately have "daysUntil (Sub (NotAfter cert) (readings w (reads w))) = 0" by simp
  then show ?thesis using assms(1) by (simp add: buildCertificateInfo_fst)
qed

theorem C10_expired_within_a_day_witness:
  "NotAfter \<lparr>NotAfter = 86400000000000, SerialNumber_String = ''1'', Subject_String = ''CN=a'',
      Issuer_String = ''CN=a''\<rparr> < readings (frozen_clock 90000000000000) (reads (frozen_clock 90000000000000))
   \<and> readings (frozen_clock 90000000000000) (reads (frozen_clock 90000000000000))
      - NotAfter \<lparr>NotAfter = 86400000000000, SerialNumber_String = ''1'', Subject_String = ''CN=a'',
      Issuer_String = ''CN=a''\<rparr> < 24 * Hour
   \<and> IsExpired (fst (buildCertificateInfo \<lparr>includeSubject = False, daysThreshold = 30\<rparr> ''a.pem''
      \<lparr>NotAfter = 86400000000000, SerialNumber_String = ''1'', Subject_String = ''CN=a'',
        Issuer_String = ''CN=a''\<rparr> (frozen_clock 90000000000000)))
   \<and> DaysUntilExpiry (fst (buildCertificateInfo \<lparr>includeSubject = False, daysThreshold = 30\<rparr> ''a.pem''
      \<lparr>NotAfter = 86400000000000, SerialNumber_String = ''1'', Subject_String = ''CN=a'',
        Issuer_String = ''CN=a''\<rparr> (frozen_clock 90000000000000))) = 0
   \<and> IsExpiringSoon (fst (buildCertificateInfo \<lparr>includeSubject = False, daysThreshold = 30\<rparr> ''a.pem''
      \<lparr>NotAfter = 86400000000000, SerialNumber_String = ''1'', Subject_String = ''CN=a'',
        Issuer_String = ''CN=a''\<rparr> (frozen_clock 90000000000000)))"
proof -
  have a: "NotAfter \<lparr>NotAfter = 86400000000000, SerialNumber_String = ''1'', Subject_String = ''CN=a'',
      Issuer_String = ''CN=a''\<rparr> < readings (frozen_clock 90000000000000) (reads (frozen_clock 90000000000000))"
    by (simp add: frozen_clock_def)
  have b: "readings (frozen_clock 90000000000000) (reads (frozen_clock 90000000000000))
      - NotAfter \<lparr>NotAfter = 86400000000000, SerialNumber_String = ''1'', Subject_String = ''CN=a'',
      Issuer_String = ''CN=a''\<rparr> < 24 * Hour"
    by (simp add: frozen_clock_def Hour_def)
  from C10_expired_within_a_day [OF a b, of "\<lparr>includeSubject = False, daysThreshold = 30\<rparr>" "''a.pem''"]
  show ?thesis using a b by simp
qed

subsection \<open>Where the rounding cannot reach the next whole number\<close>

lemma rne_le_int: "y \<le> of_int N \<Longrightarrow> rne y \<le> N"
  using rne_mono [of y "of_int N"] by simp

lemma rne_below_half:
  assumes "y < of_int M - 1 / 2"
  shows "rne y \<le> M - 1"
proof -
  have "y < of_int M" using assms by simp
  then have "\<lfloor>y\<rfloor> < M" by (simp only: floor_less_iff)
  then consider "\<lfloor>y\<rfloor> = M - 1" | "\<lfloor>y\<rfloor> + 1 \<le> M - 1" by linarith
  then show ?thesis
  proof cases
    case 1
    then have "y - of_int \<lfloor>y\<rfloor> < 1 / 2" using assms by simp
    then show ?thesis using 1 by (simp add: rne_def Let_def)
  next
    case 2
    with rne_floor [of y] show ?thesis by linarith
  qed
qed

lemma powi_double: "(2::rat) powi (k - 52) = 2 * 2 powi (k - 53)"
proof -
  have "(2::rat) powi (1 + (k - 53)) = 2 powi 1 * 2 powi (k - 53)" by (rule power_int_add) simp
  moreover have "1 + (k - 53) = k - 52" by simp
  ultimately show ?thesis by simp
qed

text \<open>
  A value with binary exponent \<open>k\<close> that lies below the middle between two neighbouring
  \<open>float64\<close> numbers rounds to the lower one.
\<close>

lemma float64_round_down:
  assumes lo: "2 powi k \<le> x" and hi: "x < 2 powi (k + 1)"
    and lt: "x < (of_int M - 1 / 2) * 2 powi (k - 52)"
  shows "float64 x \<le> of_int (M - 1) * 2 powi (k - 52)"
proof -
  define q :: rat where "q = 2 powi (k - 52)"
  have qpos: "0 < q" by (simp add: q_def)
  have "(0::rat) < 2 powi k" by simp
  with lo have xpos: "0 < x" by linarith
  then have ax: "\<bar>x\<bar> = x" by simp
  have f: "float64 x = of_int (rne (x / q)) * q"
    unfolding q_def using lo hi by (intro float64_eval) (simp_all add: ax)
  have "x / q < of_int M - 1 / 2" using lt qpos by (simp add: q_def pos_divide_less_eq)
  then have "rne (x / q) \<le> M - 1" by (rule rne_below_half)
  then have "(of_int (rne (x / q)) :: rat) \<le> of_int (M - 1)" by (simp only: of_int_le_iff)
  then have "of_int (rne (x / q)) * q \<le> of_int (M - 1) * q" using qpos by simp
  then show ?thesis by (simp only: f q_def)
qed

text \<open>The same for a value whose exponent is \<open>k\<close> or less: it does not rise above that middle.\<close>

lemma float64_below:
  assumes x0: "0 \<le> x" and hi: "x < 2 powi (k + 1)"
    and lt: "x < (of_int M - 1 / 2) * 2 powi (k - 52)"
  shows "float64 x \<le> (of_int M - 1 / 2) * 2 powi (k - 52)"
proof (cases "x = 0")
  case True
  with lt show ?thesis by simp
next
  case False
  with x0 have xpos: "0 < x" by simp
  then have ax: "\<bar>x\<bar> = x" by simp
  define e where "e = ilog2 x"
  from ilog2_bounds [OF False] have elo: "2 powi e \<le> x" and ehi: "x < 2 powi (e + 1)"
    by (simp_all add: e_def ax)
  have "(2::rat) powi e < 2 powi (k + 1)" using elo hi by linarith
  then have ek: "e < k + 1" by (rule powi_less_imp)
  have qk: "(0::rat) < 2 powi (k - 52)" by simp
  show ?thesis
  proof (cases "e = k")
    case True
    from float64_round_down [OF elo [unfolded True] hi lt]
    have "float64 x \<le> of_int (M - 1) * 2 powi (k - 52)" .
    also have "\<dots> \<le> (of_int M - 1 / 2) * 2 powi (k - 52)" using qk by simp
    finally show ?thesis .
  next
    case False
    with ek have "e + 1 \<le> k" by simp
    define j where "j = nat (k - e - 1)"
    have j: "int j = k - e - 1" using \<open>e + 1 \<le> k\<close> by (simp add: j_def)
    define q :: rat where "q = 2 powi (e - 52)"
    have qpos: "0 < q" by (simp add: q_def)
    have qk_eq: "(2::rat) powi (k - 52) = q * 2 ^ Suc j"
    proof -
      have keq: "(e - 52) + int (Suc j) = k - 52" using j by simp
      have "(2::rat) powi ((e - 52) + int (Suc j)) = 2 powi (e - 52) * 2 powi (int (Suc j))"
        by (rule power_int_add) simp
      then have "(2::rat) powi (k - 52) = 2 powi (e - 52) * 2 powi (int (Suc j))"
        by (simp only: keq)
      also have "(2::rat) powi (int (Suc j)) = 2 ^ Suc j" by (rule power_int_of_nat)
      finally show ?thesis by (simp only: q_def)
    qed
    define N where "N = M * 2 ^ Suc j - 2 ^ j"
    have B: "(of_int M - 1 / 2) * 2 powi (k - 52) = of_int N * q"
      unfolding qk_eq N_def by (simp add: algebra_simps)
    have f: "float64 x = of_int (rne (x / q)) * q"
      unfolding q_def using elo ehi by (intro float64_eval) (simp_all add: ax)
    have "x / q < of_int N" using lt qpos unfolding B by (simp add: pos_divide_less_eq)
    then have "rne (x / q) \<le> N" by (intro rne_le_int) simp
    then have "(of_int (rne (x / q)) :: rat) \<le> of_int N" by (simp only: of_int_le_iff)
    then have "of_int (rne (x / q)) * q \<le> of_int N * q" using qpos by simp
    then show ?thesis by (simp only: f B)
  qed
qed

lemma Hours_nonneg_eq:
  assumes d0: "0 \<le> d" and dmax: "d \<le> maxDuration + 1"
  shows "Hours d = float64 (of_int (d div Hour) + float64 (of_int (d mod Hour) / 3600000000000))"
proof -
  have h0: "0 \<le> d div Hour" using d0 by (simp add: Hour_def pos_imp_zdiv_nonneg_iff)
  have "d div Hour \<le> (maxDuration + 1) div Hour" using dmax
    by (intro zdiv_mono1) (simp_all add: Hour_def)
  then have hmax: "d div Hour \<le> 2562047" by (simp add: maxDuration_def Hour_def)
  have n0: "0 \<le> d mod Hour" and nH: "d mod Hour < Hour" by (simp_all add: Hour_def)
  have fh: "float64 (of_int (d div Hour)) = of_int (d div Hour)"
    using h0 hmax by (intro float64_of_int) simp
  have fn: "float64 (of_int (d mod Hour)) = of_int (d mod Hour)"
    using n0 nH by (intro float64_of_int) (simp add: Hour_def)
  show ?thesis using d0 by (simp add: Hours_def Let_def sdiv_nonneg smod_nonneg fh fn)
qed

lemma Hours_below:
  assumes d0: "0 \<le> d" and dmax: "d \<le> maxDuration + 1"
    and u_rep: "float64 u = u"
    and u_ge: "of_int (d mod Hour) / 3600000000000 \<le> u"
    and u_lt: "u < 1 - 2 powi (k - 53)"
    and hi: "of_int (d div Hour) + 1 \<le> (2::rat) powi (k + 1)"
    and M: "of_int M * 2 powi (k - 52) = (of_int (d div Hour) + 1 :: rat)"
  shows "Hours d \<le> of_int (d div Hour) + 1 - 2 powi (k - 53)"
proof -
  define t where "t = float64 (of_int (d mod Hour) / 3600000000000)"
  have h0: "0 \<le> d div Hour" using d0 by (simp add: Hour_def pos_imp_zdiv_nonneg_iff)
  have "(0::rat) \<le> of_int (d mod Hour) / 3600000000000" by (simp add: Hour_def)
  then have t0: "0 \<le> t" unfolding t_def by (rule float64_nonneg)
  have "t \<le> float64 u" unfolding t_def using u_ge by (rule float64_mono)
  then have tu: "t \<le> u" by (simp only: u_rep)
  have half: "(0::rat) < 2 powi (k - 53)" by simp
  have B: "(of_int M - 1 / 2) * 2 powi (k - 52) = (of_int (d div Hour) + 1 - 2 powi (k - 53) :: rat)"
  proof -
    have "(of_int M - 1 / 2) * 2 powi (k - 52) = of_int M * 2 powi (k - 52) - 2 powi (k - 52) / (2::rat)"
      by (simp add: algebra_simps)
    also have "\<dots> = of_int (d div Hour) + 1 - 2 powi (k - 53)"
      unfolding M by (simp add: powi_double)
    finally show ?thesis .
  qed
  have x0: "0 \<le> of_int (d div Hour) + t" using h0 t0 by simp
  have xlt: "of_int (d div Hour) + t < (of_int M - 1 / 2) * 2 powi (k - 52)"
    unfolding B using tu u_lt by linarith
  have xhi: "of_int (d div Hour) + t < 2 powi (k + 1)"
    using xlt hi half unfolding B by linarith
  from float64_below [OF x0 xhi xlt]
  show ?thesis unfolding Hours_nonneg_eq [OF d0 dmax] t_def [symmetric] B .
qed

lemma Hours_below_exact:
  assumes d0: "0 \<le> d" and dmax: "d \<le> maxDuration + 1"
    and u_rep: "float64 u = u"
    and u_ge: "of_int (d mod Hour) / 3600000000000 \<le> u"
    and u_lt: "u < 1 - 2 powi (k - 53)"
    and lo: "(2::rat) powi k \<le> of_int (d div Hour)"
    and hi: "of_int (d div Hour) + 1 \<le> (2::rat) powi (k + 1)"
    and M: "of_int M * 2 powi (k - 52) = (of_int (d div Hour) + 1 :: rat)"
  shows "Hours d \<le> of_int (d div Hour) + 1 - 2 powi (k - 52)"
proof -
  define t where "t = float64 (of_int (d mod Hour) / 3600000000000)"
  have "(0::rat) \<le> of_int (d mod Hour) / 3600000000000" by (simp add: Hour_def)
  then have t0: "0 \<le> t" unfolding t_def by (rule float64_nonneg)
  have "t \<le> float64 u" unfolding t_def using u_ge by (rule float64_mono)
  then have tu: "t \<le> u" by (simp only: u_rep)
  have half: "(0::rat) < 2 powi (k - 53)" by simp
  have B: "(of_int M - 1 / 2) * 2 powi (k - 52) = (of_int (d div Hour) + 1 - 2 powi (k - 53) :: rat)"
  proof -
    have "(of_int M - 1 / 2) * 2 powi (k - 52) = of_int M * 2 powi (k - 52) - 2 powi (k - 52) / (2::rat)"
      by (simp add: algebra_simps)
    also have "\<dots> = of_int (d div Hour) + 1 - 2 powi (k - 53)"
      unfolding M by (simp add: powi_double)
    finally show ?thesis .
  qed
  have C: "of_int (M - 1) * 2 powi (k - 52) = (of_int (d div Hour) + 1 - 2 powi (k - 52) :: rat)"
  proof -
    have "of_int (M - 1) * 2 powi (k - 52) = of_int M * 2 powi (k - 52) - (2::rat) powi (k - 52)"
      by (simp add: algebra_simps)
    then show ?thesis by (simp only: M)
  qed
  have xlo: "2 powi k \<le> of_int (d div Hour) + t" using lo t0 by linarith
  have xlt: "of_int (d div Hour) + t < (of_int M - 1 / 2) * 2 powi (k - 52)"
    unfolding B using tu u_lt by linarith
  have xhi: "of_int (d div Hour) + t < 2 powi (k + 1)"
    using xlt hi half unfolding B by linarith
  from float64_round_down [OF xlo xhi xlt]
  show ?thesis unfolding Hours_nonneg_eq [OF d0 dmax] t_def [symmetric] C .
qed

lemma days_below:
  assumes d0: "0 \<le> d" and dmax: "d \<le> maxDuration + 1"
    and H: "Hours d \<le> 24 * (of_int (d div (24 * Hour)) + 1) - g"
    and g: "24 * 2 powi (k - 53) < g"
    and hi: "of_int (d div (24 * Hour)) + 1 \<le> (2::rat) powi (k + 1)"
    and M: "of_int M * 2 powi (k - 52) = (of_int (d div (24 * Hour)) + 1 :: rat)"
  shows "daysUntil d = d div (24 * Hour)"
proof -
  define T where "T = d div (24 * Hour)"
  have h0: "0 \<le> d div Hour" using d0 by (simp add: Hour_def pos_imp_zdiv_nonneg_iff)
  have half: "(0::rat) < 2 powi (k - 53)" by simp
  have "0 \<le> Hours d" using Hours_nonneg_bounds [OF d0 dmax] h0 by simp
  then have y0: "0 \<le> Hours d / 24" by simp
  have B: "(of_int M - 1 / 2) * 2 powi (k - 52) = (of_int T + 1 - 2 powi (k - 53) :: rat)"
  proof -
    have "(of_int M - 1 / 2) * 2 powi (k - 52) = of_int M * 2 powi (k - 52) - 2 powi (k - 52) / (2::rat)"
      by (simp add: algebra_simps)
    also have "\<dots> = of_int T + 1 - 2 powi (k - 53)"
      unfolding M T_def by (simp add: powi_double)
    finally show ?thesis .
  qed
  have "Hours d / 24 \<le> of_int T + 1 - g / 24" using H by (simp add: T_def field_simps)
  moreover have "2 powi (k - 53) < g / 24" using g by simp
  ultimately have ylt: "Hours d / 24 < (of_int M - 1 / 2) * 2 powi (k - 52)"
    unfolding B by linarith
  have yhi: "Hours d / 24 < 2 powi (k + 1)"
    using ylt hi half unfolding B T_def by linarith
  from float64_below [OF y0 yhi ylt]
  have "float64 (Hours d / 24) \<le> of_int T + 1 - 2 powi (k - 53)" unfolding B .
  with half have "float64 (Hours d / 24) < of_int T + 1" by linarith
  then have "float64 (Hours d / 24) < of_int (T + 1)" by simp
  then have fl: "\<lfloor>float64 (Hours d / 24)\<rfloor> < T + 1" by (simp only: floor_less_iff)
  from daysUntil_nonneg_bounds [OF d0 dmax] have lo: "T \<le> daysUntil d" by (simp add: T_def)
  have "0 \<le> float64 (Hours d / 24)" using y0 by (rule float64_nonneg)
  then have "daysUntil d = \<lfloor>float64 (Hours d / 24)\<rfloor>" by (simp add: daysUntil_def go_int_def)
  with fl lo show ?thesis unfolding T_def by linarith
qed

lemma day_of_hours: "d div (24 * Hour) = (d div Hour) div 24"
  by (simp add: Hour_def zdiv_zmult2_eq)

lemma day_rest: "d mod (24 * Hour) = Hour * ((d div Hour) mod 24) + d mod Hour"
proof -
  have "d mod (Hour * 24) = Hour * ((d div Hour) mod 24) + d mod Hour"
    by (rule zmod_zmult2_eq) simp
  then show ?thesis by (simp add: mult.commute)
qed

lemma not_last_hour: "h mod 24 \<noteq> 23 \<Longrightarrow> h + 1 \<le> 24 * (h div 24 + 1) - 1" for h :: int
  by presburger

lemma last_hour: "h mod 24 = 23 \<Longrightarrow> h + 1 = 24 * (h div 24 + 1)" for h :: int
  by presburger

lemma days_of_hours_range: "0 \<le> h \<Longrightarrow> h \<le> 2562047 \<Longrightarrow> 0 \<le> h div 24 \<and> h div 24 \<le> 106751"
  for h :: int
  by presburger

lemma hours_range:
  assumes "0 \<le> d" and "d \<le> maxDuration + 1"
  shows "0 \<le> d div Hour \<and> d div Hour \<le> 2562047
    \<and> 0 \<le> d div (24 * Hour) \<and> d div (24 * Hour) \<le> 106751"
proof -
  have h0: "0 \<le> d div Hour" using assms(1) by (simp add: Hour_def pos_imp_zdiv_nonneg_iff)
  have "d div Hour \<le> (maxDuration + 1) div Hour" using assms(2)
    by (intro zdiv_mono1) (simp_all add: Hour_def)
  then have hmax: "d div Hour \<le> 2562047" by (simp add: maxDuration_def Hour_def)
  from h0 hmax days_of_hours_range [OF h0 hmax] show ?thesis unfolding day_of_hours by simp
qed

text \<open>
  The days are exact whenever the duration does not end in the last hour of a day: the
  sum in \<open>Hours\<close> is at most the next whole hour, and that is not a whole day.
\<close>

lemma daysUntil_exact_not_last_hour:
  assumes d0: "0 \<le> d" and dmax: "d \<le> maxDuration + 1"
    and nl: "(d div Hour) mod 24 \<noteq> 23"
  shows "daysUntil d = d div (24 * Hour)"
proof -
  define T where "T = d div (24 * Hour)"
  from hours_range [OF d0 dmax] have T0: "0 \<le> T" and Tmax: "T \<le> 106751" by (simp_all add: T_def)
  have "d div Hour + 1 \<le> 24 * (T + 1) - 1" unfolding T_def day_of_hours using nl by (rule not_last_hour)
  then have "(of_int (d div Hour + 1) :: rat) \<le> of_int (24 * (T + 1) - 1)" by (simp only: of_int_le_iff)
  moreover from Hours_nonneg_bounds [OF d0 dmax] have "Hours d \<le> of_int (d div Hour + 1)" ..
  ultimately have H: "Hours d \<le> 24 * (of_int (d div (24 * Hour)) + 1) - 1" by (simp add: T_def)
  have g: "24 * 2 powi (16 - 53) < (1::rat)" by (simp add: power_int_minus)
  have "(of_int (T + 1) :: rat) \<le> of_int 131072" using Tmax by (simp only: of_int_le_iff)
  then have hi: "of_int (d div (24 * Hour)) + 1 \<le> (2::rat) powi (16 + 1)" by (simp add: T_def)
  have M: "of_int ((T + 1) * 2 ^ 36) * 2 powi (16 - 52) = (of_int (d div (24 * Hour)) + 1 :: rat)"
    by (simp add: T_def power_int_minus)
  from days_below [OF d0 dmax H g hi M] show ?thesis .
qed

text \<open>
  They are exact as well whenever the duration ends a microsecond or more before the
  end of a day, over the whole range of \<open>time.Duration\<close>.
\<close>

lemma daysUntil_exact_off_boundary:
  assumes d0: "0 \<le> d" and dmax: "d \<le> maxDuration + 1"
    and off: "d mod (24 * Hour) \<le> 24 * Hour - 1000"
  shows "daysUntil d = d div (24 * Hour)"
proof (cases "(d div Hour) mod 24 = 23")
  case False
  with d0 dmax show ?thesis by (rule daysUntil_exact_not_last_hour)
next
  case True
  define T where "T = d div (24 * Hour)"
  from hours_range [OF d0 dmax] have h0: "0 \<le> d div Hour" and hmax: "d div Hour \<le> 2562047"
    and T0: "0 \<le> T" and Tmax: "T \<le> 106751" by (simp_all add: T_def)
  have hT: "d div Hour + 1 = 24 * (T + 1)" unfolding T_def day_of_hours using True by (rule last_hour)
  have "d mod Hour \<le> Hour - 1000" using off unfolding day_rest True by (simp add: Hour_def)
  then have "d mod Hour \<le> 3599999999000" by (simp add: Hour_def)
  then have "(of_int (d mod Hour) :: rat) \<le> of_int 3599999999000" by (simp only: of_int_le_iff)
  then have n: "(of_int (d mod Hour) :: rat) \<le> 3599999999000" by simp
  have u_rep: "float64 (of_int (2 ^ 35 - 9) * 2 powi (- 35)) = of_int (2 ^ 35 - 9) * 2 powi (- 35)"
    by (rule float64_exact) simp
  have "(3599999999000 :: rat) / 3600000000000 \<le> of_int (2 ^ 35 - 9) * 2 powi (- 35)"
    by (simp add: power_int_minus)
  moreover have "(of_int (d mod Hour) :: rat) / 3600000000000 \<le> 3599999999000 / 3600000000000"
    using n by (simp add: divide_right_mono)
  ultimately have u_ge: "of_int (d mod Hour) / 3600000000000 \<le> (of_int (2 ^ 35 - 9) * 2 powi (- 35) :: rat)"
    by linarith
  have u_lt: "(of_int (2 ^ 35 - 9) * 2 powi (- 35) :: rat) < 1 - 2 powi (21 - 53)"
    by (simp add: power_int_minus)
  have "(of_int (d div Hour + 1) :: rat) \<le> of_int 4194304" using hmax by (simp only: of_int_le_iff)
  then have hi: "of_int (d div Hour) + 1 \<le> (2::rat) powi (21 + 1)" by simp
  have M: "of_int ((d div Hour + 1) * 2 ^ 31) * 2 powi (21 - 52) = (of_int (d div Hour) + 1 :: rat)"
    by (simp add: power_int_minus)
  from Hours_below [OF d0 dmax u_rep u_ge u_lt hi M]
  have "Hours d \<le> of_int (d div Hour + 1) - 2 powi (21 - 53)" by simp
  then have H: "Hours d \<le> 24 * (of_int (d div (24 * Hour)) + 1) - 2 powi (21 - 53)"
    unfolding hT by (simp add: T_def)
  have g: "24 * 2 powi (16 - 53) < (2::rat) powi (21 - 53)" by (simp add: power_int_minus)
  have "(of_int (T + 1) :: rat) \<le> of_int 131072" using Tmax by (simp only: of_int_le_iff)
  then have hi': "of_int (d div (24 * Hour)) + 1 \<le> (2::rat) powi (16 + 1)" by (simp add: T_def)
  have M': "of_int ((T + 1) * 2 ^ 36) * 2 powi (16 - 52) = (of_int (d div (24 * Hour)) + 1 :: rat)"
    by (simp add: T_def power_int_minus)
  from days_below [OF d0 dmax H g hi' M'] show ?thesis .
qed

text \<open>
  Below 171 days less a nanosecond the days are exact without exception. The bound is
  the best one: 171 days less a nanosecond count as 171 days.
\<close>

lemma hour_4103: "4096 \<le> h \<Longrightarrow> h \<le> 4103 \<Longrightarrow> h mod 24 = 23 \<Longrightarrow> h = 4103" for h :: int
  by presburger

lemma daysUntil_exact_171_nonneg:
  assumes d0: "0 \<le> d" and dlt: "d < 171 * (24 * Hour) - 1"
  shows "daysUntil d = d div (24 * Hour)"
proof (cases "(d div Hour) mod 24 = 23")
  case False
  have "d \<le> maxDuration + 1" using dlt by (simp add: maxDuration_def Hour_def)
  with d0 show ?thesis using False by (rule daysUntil_exact_not_last_hour)
next
  case True
  define T where "T = d div (24 * Hour)"
  have dmax: "d \<le> maxDuration + 1" using dlt by (simp add: maxDuration_def Hour_def)
  from hours_range [OF d0 dmax] have h0: "0 \<le> d div Hour" and T0: "0 \<le> T" by (simp_all add: T_def)
  have "d div Hour < 171 * 24" using dlt by (simp add: Hour_def div_less_iff_less_mult)
  then have hmax: "d div Hour \<le> 4103" by simp
  have hT: "d div Hour + 1 = 24 * (T + 1)" unfolding T_def day_of_hours using True by (rule last_hour)
  have Tmax: "T \<le> 170" using hT hmax by simp
  have "(of_int (T + 1) :: rat) \<le> of_int 256" using Tmax by (simp only: of_int_le_iff)
  then have hi7: "of_int (d div (24 * Hour)) + 1 \<le> (2::rat) powi (7 + 1)" by (simp add: T_def)
  have M7: "of_int ((T + 1) * 2 ^ 45) * 2 powi (7 - 52) = (of_int (d div (24 * Hour)) + 1 :: rat)"
    by (simp add: T_def power_int_minus)
  have n1: "(of_int (d mod Hour) :: rat) \<le> 3599999999999"
  proof -
    have "d mod Hour \<le> 3599999999999" by (simp add: Hour_def flip: zle_diff1_eq)
    then have "(of_int (d mod Hour) :: rat) \<le> of_int 3599999999999" by (simp only: of_int_le_iff)
    then show ?thesis by simp
  qed
  have u_rep: "float64 (of_int (2 ^ 45 - 9) * 2 powi (- 45)) = of_int (2 ^ 45 - 9) * 2 powi (- 45)"
    by (rule float64_exact) simp
  have "(3599999999999 :: rat) / 3600000000000 \<le> of_int (2 ^ 45 - 9) * 2 powi (- 45)"
    by (simp add: power_int_minus)
  moreover have "(of_int (d mod Hour) :: rat) / 3600000000000 \<le> 3599999999999 / 3600000000000"
    using n1 by (simp add: divide_right_mono)
  ultimately have u_ge: "of_int (d mod Hour) / 3600000000000 \<le> (of_int (2 ^ 45 - 9) * 2 powi (- 45) :: rat)"
    by linarith
  have u_lt: "(of_int (2 ^ 45 - 9) * 2 powi (- 45) :: rat) < 1 - 2 powi (11 - 53)"
    by (simp add: power_int_minus)
  have M11: "of_int ((d div Hour + 1) * 2 ^ 41) * 2 powi (11 - 52) = (of_int (d div Hour) + 1 :: rat)"
    by (simp add: power_int_minus)
  consider "d div Hour \<le> 3071" | "3072 \<le> d div Hour" "d div Hour \<le> 4095" | "4096 \<le> d div Hour"
    by linarith
  then show ?thesis
  proof cases
    case 1
    have "(of_int (d div Hour + 1) :: rat) \<le> of_int 4096" using 1 by (simp only: of_int_le_iff)
    then have hi: "of_int (d div Hour) + 1 \<le> (2::rat) powi (11 + 1)" by simp
    from Hours_below [OF d0 dmax u_rep u_ge u_lt hi M11]
    have "Hours d \<le> of_int (d div Hour + 1) - 2 powi (11 - 53)" by simp
    then have H: "Hours d \<le> 24 * (of_int (d div (24 * Hour)) + 1) - 2 powi (11 - 53)"
      unfolding hT by (simp add: T_def)
    have g: "24 * 2 powi (6 - 53) < (2::rat) powi (11 - 53)" by (simp add: power_int_minus)
    have "T \<le> 127" using hT 1 by simp
    then have "(of_int (T + 1) :: rat) \<le> of_int 128" by (simp only: of_int_le_iff)
    then have hi6: "of_int (d div (24 * Hour)) + 1 \<le> (2::rat) powi (6 + 1)" by (simp add: T_def)
    have M6: "of_int ((T + 1) * 2 ^ 46) * 2 powi (6 - 52) = (of_int (d div (24 * Hour)) + 1 :: rat)"
      by (simp add: T_def power_int_minus)
    from days_below [OF d0 dmax H g hi6 M6] show ?thesis .
  next
    case 2
    have "(of_int 2048 :: rat) \<le> of_int (d div Hour)" using 2(1) by (simp only: of_int_le_iff)
    then have lo: "(2::rat) powi 11 \<le> of_int (d div Hour)" by simp
    have "(of_int (d div Hour + 1) :: rat) \<le> of_int 4096" using 2(2) by (simp only: of_int_le_iff)
    then have hi: "of_int (d div Hour) + 1 \<le> (2::rat) powi (11 + 1)" by simp
    from Hours_below_exact [OF d0 dmax u_rep u_ge u_lt lo hi M11]
    have "Hours d \<le> of_int (d div Hour + 1) - 2 powi (11 - 52)" by simp
    then have H: "Hours d \<le> 24 * (of_int (d div (24 * Hour)) + 1) - 2 powi (11 - 52)"
      unfolding hT by (simp add: T_def)
    have g: "24 * 2 powi (7 - 53) < (2::rat) powi (11 - 52)" by (simp add: power_int_minus)
    from days_below [OF d0 dmax H g hi7 M7] show ?thesis .
  next
    case 3
    from 3 hmax True have h: "d div Hour = 4103" by (rule hour_4103)
    have "d = Hour * (d div Hour) + d mod Hour" by simp
    with dlt h have "d mod Hour \<le> 3599999999998" by (simp add: Hour_def)
    then have "(of_int (d mod Hour) :: rat) \<le> of_int 3599999999998" by (simp only: of_int_le_iff)
    then have n2: "(of_int (d mod Hour) :: rat) \<le> 3599999999998" by simp
    have u_rep': "float64 (of_int (2 ^ 44 - 9) * 2 powi (- 44)) = of_int (2 ^ 44 - 9) * 2 powi (- 44)"
      by (rule float64_exact) simp
    have "(3599999999998 :: rat) / 3600000000000 \<le> of_int (2 ^ 44 - 9) * 2 powi (- 44)"
      by (simp add: power_int_minus)
    moreover have "(of_int (d mod Hour) :: rat) / 3600000000000 \<le> 3599999999998 / 3600000000000"
      using n2 by (simp add: divide_right_mono)
    ultimately have u_ge': "of_int (d mod Hour) / 3600000000000
        \<le> (of_int (2 ^ 44 - 9) * 2 powi (- 44) :: rat)" by linarith
    have u_lt': "(of_int (2 ^ 44 - 9) * 2 powi (- 44) :: rat) < 1 - 2 powi (12 - 53)"
      by (simp add: power_int_minus)
    have lo: "(2::rat) powi 12 \<le> of_int (d div Hour)" by (simp add: h)
    have hi: "of_int (d div Hour) + 1 \<le> (2::rat) powi (12 + 1)" by (simp add: h)
    have M12: "of_int ((d div Hour + 1) * 2 ^ 40) * 2 powi (12 - 52) = (of_int (d div Hour) + 1 :: rat)"
      by (simp add: power_int_minus)
    from Hours_below_exact [OF d0 dmax u_rep' u_ge' u_lt' lo hi M12]
    have "Hours d \<le> of_int (d div Hour + 1) - 2 powi (12 - 52)" by simp
    then have H: "Hours d \<le> 24 * (of_int (d div (24 * Hour)) + 1) - 2 powi (12 - 52)"
      unfolding hT by (simp add: T_def)
    have g: "24 * 2 powi (7 - 53) < (2::rat) powi (12 - 52)" by (simp add: power_int_minus)
    from days_below [OF d0 dmax H g hi7 M7] show ?thesis .
  qed
qed

lemma float64_4104: "float64 (4104 - 3 / 2 ^ 43) = 4104"
proof -
  have "float64 (4104 - 3 / 2 ^ 43) =
      of_int (rne ((4104 - 3 / 2 ^ 43) / 2 powi (12 - 52))) * 2 powi (12 - 52)"
    by (rule float64_eval) simp_all
  also have "rne ((4104 - 3 / 2 ^ 43) / 2 powi (12 - 52)) = 4512395720392704"
    by (rule rne_eval) (simp_all add: power_int_minus)
  also have "of_int 4512395720392704 * 2 powi (12 - 52) = (4104::rat)"
    by (simp add: power_int_minus)
  finally show ?thesis .
qed

lemma daysUntil_171_days_less_1ns: "daysUntil (171 * (24 * Hour) - 1) = 171"
proof -
  define d :: int where "d = 171 * (24 * Hour) - 1"
  have d0: "0 \<le> d" and dmax: "d \<le> maxDuration + 1"
    by (simp_all add: d_def Hour_def maxDuration_def)
  have hour: "d div Hour = 4103" and nsec: "d mod Hour = 3599999999999"
    by (simp_all add: d_def Hour_def)
  define t :: rat where "t = float64 (3599999999999 / 3600000000000)"
  have H: "Hours d = float64 (4103 + t)"
    unfolding Hours_nonneg_eq [OF d0 dmax] hour nsec t_def by simp
  have e: "float64 (of_int (2 ^ 43 - 3) * 2 powi (- 43)) = of_int (2 ^ 43 - 3) * 2 powi (- 43)"
    by (rule float64_exact) simp
  have "(of_int (2 ^ 43 - 3) * 2 powi (- 43) :: rat) \<le> 3599999999999 / 3600000000000"
    by (simp add: power_int_minus)
  then have "float64 (of_int (2 ^ 43 - 3) * 2 powi (- 43)) \<le> t" unfolding t_def by (rule float64_mono)
  then have "1 - 3 / 2 ^ 43 \<le> t" unfolding e by (simp add: power_int_minus)
  then have "4104 - 3 / 2 ^ 43 \<le> 4103 + t" by simp
  then have "float64 (4104 - 3 / 2 ^ 43) \<le> float64 (4103 + t)" by (rule float64_mono)
  then have lo: "4104 \<le> Hours d" by (simp only: float64_4104 H)
  from Hours_nonneg_bounds [OF d0 dmax] have "Hours d \<le> of_int (d div Hour + 1)" ..
  then have "Hours d \<le> 4104" by (simp add: hour)
  with lo have "Hours d = 4104" by simp
  then have "Hours d / 24 = of_int 171" by simp
  moreover have "float64 (of_int 171) = of_int 171" by (rule float64_of_int) simp
  ultimately have "daysUntil d = 171" by (simp only: daysUntil_def go_int_of_int)
  then show ?thesis by (simp only: d_def)
qed

lemma daysUntil_exact_171:
  assumes "\<bar>d\<bar> < 171 * (24 * Hour) - 1"
  shows "daysUntil d = d sdiv (24 * Hour)"
proof (cases "0 \<le> d")
  case True
  then have "d < 171 * (24 * Hour) - 1" using assms by simp
  with True have "daysUntil d = d div (24 * Hour)" by (rule daysUntil_exact_171_nonneg)
  then show ?thesis using True by (simp only: sdiv_day_nonneg)
next
  case False
  then have n: "0 \<le> - d" and m: "- d < 171 * (24 * Hour) - 1" using assms by simp_all
  have a: "daysUntil (- d) = (- d) div (24 * Hour)" using n m by (rule daysUntil_exact_171_nonneg)
  have b: "(- d) sdiv (24 * Hour) = (- d) div (24 * Hour)" using n by (rule sdiv_day_nonneg)
  have "daysUntil d = - daysUntil (- d)" by (simp add: daysUntil_minus)
  also have "\<dots> = - ((- d) sdiv (24 * Hour))" by (simp only: a b)
  also have "\<dots> = d sdiv (24 * Hour)" by (simp only: sdiv_day_minus minus_minus)
  finally show ?thesis .
qed

lemma daysUntil_exact_off_day_end:
  assumes "minDuration \<le> d" and "d \<le> maxDuration"
    and "\<bar>d\<bar> mod (24 * Hour) \<le> 24 * Hour - 1000"
  shows "daysUntil d = d sdiv (24 * Hour)"
proof (cases "0 \<le> d")
  case True
  have "d \<le> maxDuration + 1" using assms(2) by simp
  with True have "daysUntil d = d div (24 * Hour)"
    using assms(3) True by (intro daysUntil_exact_off_boundary) simp_all
  then show ?thesis using True by (simp only: sdiv_day_nonneg)
next
  case False
  then have n: "0 \<le> - d" and m: "- d \<le> maxDuration + 1"
    using assms(1) by (simp_all add: minDuration_def maxDuration_def)
  have o: "(- d) mod (24 * Hour) \<le> 24 * Hour - 1000" using assms(3) False by simp
  have a: "daysUntil (- d) = (- d) div (24 * Hour)" using n m o by (rule daysUntil_exact_off_boundary)
  have b: "(- d) sdiv (24 * Hour) = (- d) div (24 * Hour)" using n by (rule sdiv_day_nonneg)
  have "daysUntil d = - daysUntil (- d)" by (simp add: daysUntil_minus)
  also have "\<dots> = - ((- d) sdiv (24 * Hour))" by (simp only: a b)
  also have "\<dots> = d sdiv (24 * Hour)" by (simp only: sdiv_day_minus minus_minus)
  finally show ?thesis .
qed

lemma daysUntil_sign:
  assumes "minDuration \<le> d" and "d \<le> maxDuration"
  shows "(0 \<le> d \<longrightarrow> 0 \<le> daysUntil d) \<and> (d \<le> 0 \<longrightarrow> daysUntil d \<le> 0)"
proof -
  have a: "0 \<le> daysUntil x" if "0 \<le> x" "x \<le> maxDuration + 1" for x
  proof -
    from daysUntil_nonneg_bounds [OF that] have "x div (24 * Hour) \<le> daysUntil x" ..
    moreover have "0 \<le> x div (24 * Hour)" using that(1) by (simp add: Hour_def pos_imp_zdiv_nonneg_iff)
    ultimately show ?thesis by simp
  qed
  have "0 \<le> daysUntil d" if "0 \<le> d" using that assms(2) by (intro a) simp_all
  moreover have "daysUntil d \<le> 0" if "d \<le> 0"
  proof -
    have "0 \<le> daysUntil (- d)" using that assms(1)
      by (intro a) (simp_all add: minDuration_def maxDuration_def)
    then show ?thesis by (simp add: daysUntil_minus)
  qed
  ultimately show ?thesis by blast
qed

lemma sdiv_day_le_minus_one: "d \<le> - (24 * Hour) \<Longrightarrow> d sdiv (24 * Hour) \<le> - 1"
proof -
  assume a: "d \<le> - (24 * Hour)"
  then have "24 * Hour \<le> - d" by simp
  then have "(24 * Hour) div (24 * Hour) \<le> (- d) div (24 * Hour)"
    by (rule zdiv_mono1) (simp add: Hour_def)
  then have "1 \<le> (- d) div (24 * Hour)" by (simp add: Hour_def)
  moreover have "0 \<le> - d" using a by (simp add: Hour_def)
  then have "(- d) sdiv (24 * Hour) = (- d) div (24 * Hour)" by (rule sdiv_day_nonneg)
  ultimately have "1 \<le> (- d) sdiv (24 * Hour)" by simp
  then show ?thesis by (simp only: sdiv_day_minus)
qed

text \<open>
  Beyond the range of \<open>time.Duration\<close>, about 292 years, \<open>Sub\<close> returns the largest
  duration, which counts as 106751 days.
\<close>

lemma daysUntil_maxDuration: "daysUntil maxDuration = 106751"
proof -
  have d0: "0 \<le> maxDuration" and dmax: "maxDuration \<le> maxDuration + 1"
    by (simp_all add: maxDuration_def)
  have hour: "maxDuration sdiv Hour = 2562047" and nsec: "maxDuration smod Hour = 2836854775807"
    using d0 by (simp_all add: sdiv_nonneg smod_nonneg) (simp_all add: maxDuration_def Hour_def)
  have fh: "float64 (of_int 2562047) = of_int 2562047" by (rule float64_of_int) simp
  have fn: "float64 (of_int 2836854775807) = of_int 2836854775807" by (rule float64_of_int) simp
  define t :: rat where "t = float64 (2836854775807 / 3600000000000)"
  have H: "Hours maxDuration = float64 (2562047 + t)"
    using fh fn by (simp add: Hours_def Let_def hour nsec t_def)
  have e1: "float64 (of_int 7 * 2 powi (- 3)) = of_int 7 * 2 powi (- 3)"
    by (rule float64_exact) simp
  have "2836854775807 / 3600000000000 \<le> (of_int 7 * 2 powi (- 3) :: rat)"
    by (simp add: power_int_minus)
  then have "t \<le> float64 (of_int 7 * 2 powi (- 3))" unfolding t_def by (rule float64_mono)
  then have t: "t \<le> 7 / 8" unfolding e1 by (simp add: power_int_minus)
  have e2: "float64 (of_int 20496383 * 2 powi (- 3)) = of_int 20496383 * 2 powi (- 3)"
    by (rule float64_exact) simp
  have "2562047 + t \<le> (of_int 20496383 * 2 powi (- 3) :: rat)"
    using t by (simp add: power_int_minus)
  then have "float64 (2562047 + t) \<le> float64 (of_int 20496383 * 2 powi (- 3))"
    by (rule float64_mono)
  then have h: "Hours maxDuration \<le> 20496383 / 8" unfolding e2 H by (simp add: power_int_minus)
  have e3: "float64 (of_int 27328511 * 2 powi (- 8)) = of_int 27328511 * 2 powi (- 8)"
    by (rule float64_exact) simp
  have "Hours maxDuration / 24 \<le> (of_int 27328511 * 2 powi (- 8) :: rat)"
    using h by (simp add: power_int_minus)
  then have "float64 (Hours maxDuration / 24) \<le> float64 (of_int 27328511 * 2 powi (- 8))"
    by (rule float64_mono)
  then have "float64 (Hours maxDuration / 24) \<le> 27328511 / 256"
    unfolding e3 by (simp add: power_int_minus)
  then have "float64 (Hours maxDuration / 24) < of_int 106752" by simp
  then have fl: "\<lfloor>float64 (Hours maxDuration / 24)\<rfloor> < 106752" by (simp only: floor_less_iff)
  from daysUntil_nonneg_bounds [OF d0 dmax] have lo: "106751 \<le> daysUntil maxDuration"
    by (simp add: maxDuration_def Hour_def)
  have "0 \<le> Hours maxDuration" using Hours_nonneg_bounds [OF d0 dmax]
    by (simp add: maxDuration_def Hour_def)
  then have "0 \<le> float64 (Hours maxDuration / 24)" by (intro float64_nonneg) simp
  then have "daysUntil maxDuration = \<lfloor>float64 (Hours maxDuration / 24)\<rfloor>"
    by (simp add: daysUntil_def go_int_def)
  with fl lo show ?thesis by linarith
qed

text \<open>
  C2 does not hold as stated. A certificate that is valid until the end of the year
  9999 (253402300799 seconds after the epoch), seen on the first of January 2026
  (1767225600 seconds after the epoch), expires in 2912442 days and some hours. The
  time between the two is more than a \<open>time.Duration\<close> holds, \<open>Sub\<close> returns the largest
  duration, and the record has 106751 days until expiry.
\<close>

theorem C2_counterexample:
  "DaysUntilExpiry (fst (buildCertificateInfo \<lparr>includeSubject = False, daysThreshold = 30\<rparr> ''a.pem''
        \<lparr>NotAfter = 253402300799000000000, SerialNumber_String = ''1'', Subject_String = ''CN=a'',
          Issuer_String = ''CN=a''\<rparr>
        (frozen_clock 1767225600000000000))) = 106751
   \<and> \<lfloor>(of_int (NotAfter \<lparr>NotAfter = 253402300799000000000, SerialNumber_String = ''1'',
          Subject_String = ''CN=a'', Issuer_String = ''CN=a''\<rparr>
          - readings (frozen_clock 1767225600000000000) (reads (frozen_clock 1767225600000000000))) :: rat)
        / of_int (24 * Hour)\<rfloor> = 2912442"
proof -
  have s: "Sub 253402300799000000000 1767225600000000000 = maxDuration"
    by (simp add: Sub_def minDuration_def maxDuration_def)
  have f: "\<lfloor>(of_int (253402300799000000000 - 1767225600000000000) :: rat) / of_int (24 * Hour)\<rfloor>
      = 2912442"
    unfolding floor_divide_of_int_eq by (simp add: Hour_def)
  show ?thesis
    using f by (simp add: buildCertificateInfo_fst frozen_clock_def s daysUntil_maxDuration)
qed

text \<open>
  C2, amended. The record is expired exactly when its certificate's expiry lies before
  the sampled time; its days until expiry are not negative when the certificate has not
  expired and not positive when it has. For a certificate that has not expired, the days
  are the floor of the time to the expiry divided by 24 hours. For a certificate that
  expired 24 hours or more before the sampled time, they are that quotient with its
  fraction dropped, rounded toward zero and not to the floor, and they are negative.
  Both hold without exception while the two times are less than 171 days minus a
  nanosecond apart. Further apart they hold, of the duration that \<open>Sub\<close> returns,
  unless that duration lies within a microsecond before a whole number of days; there,
  and in every case, the days count the whole days of the duration or one more.
\<close>

theorem C2_days_until_expiry:
  "IsExpired (fst (buildCertificateInfo p fp cert w)) = (NotAfter cert < readings w (reads w))
   \<and> (readings w (reads w) \<le> NotAfter cert \<longrightarrow>
        0 \<le> DaysUntilExpiry (fst (buildCertificateInfo p fp cert w)))
   \<and> (NotAfter cert \<le> readings w (reads w) \<longrightarrow>
        DaysUntilExpiry (fst (buildCertificateInfo p fp cert w)) \<le> 0)
   \<and> (readings w (reads w) \<le> NotAfter cert
        \<and> NotAfter cert - readings w (reads w) < 171 * (24 * Hour) - 1 \<longrightarrow>
        DaysUntilExpiry (fst (buildCertificateInfo p fp cert w))
          = \<lfloor>(of_int (NotAfter cert - readings w (reads w)) :: rat) / of_int (24 * Hour)\<rfloor>)
   \<and> (NotAfter cert + 24 * Hour \<le> readings w (reads w)
        \<and> readings w (reads w) - NotAfter cert < 171 * (24 * Hour) - 1 \<longrightarrow>
        DaysUntilExpiry (fst (buildCertificateInfo p fp cert w))
          = (NotAfter cert - readings w (reads w)) sdiv (24 * Hour))
   \<and> ((readings w (reads w) \<le> NotAfter cert \<or> NotAfter cert + 24 * Hour \<le> readings w (reads w))
        \<and> \<bar>Sub (NotAfter cert) (readings w (reads w))\<bar> mod (24 * Hour) \<le> 24 * Hour - 1000 \<longrightarrow>
        DaysUntilExpiry (fst (buildCertificateInfo p fp cert w))
          = Sub (NotAfter cert) (readings w (reads w)) sdiv (24 * Hour))
   \<and> (NotAfter cert + 24 * Hour \<le> readings w (reads w) \<longrightarrow>
        IsExpired (fst (buildCertificateInfo p fp cert w))
        \<and> DaysUntilExpiry (fst (buildCertificateInfo p fp cert w)) < 0)
   \<and> \<bar>Sub (NotAfter cert) (readings w (reads w))\<bar> div (24 * Hour)
        \<le> \<bar>DaysUntilExpiry (fst (buildCertificateInfo p fp cert w))\<bar>
   \<and> \<bar>DaysUntilExpiry (fst (buildCertificateInfo p fp cert w))\<bar>
        \<le> \<bar>Sub (NotAfter cert) (readings w (reads w))\<bar> div (24 * Hour) + 1"
proof -
  define now where "now = readings w (reads w)"
  define d where "d = Sub (NotAfter cert) now"
  define days where "days = daysUntil d"
  have r: "minDuration \<le> d" "d \<le> maxDuration"
    using Sub_range [of "NotAfter cert" now] by (simp_all add: d_def)
  from daysUntil_abs_bounds [OF r]
  have b: "\<bar>d\<bar> div (24 * Hour) \<le> \<bar>days\<bar>" "\<bar>days\<bar> \<le> \<bar>d\<bar> div (24 * Hour) + 1"
    by (simp_all add: days_def)
  have d_nonneg: "0 \<le> d" if "now \<le> NotAfter cert"
    using that by (simp add: d_def Sub_def minDuration_def maxDuration_def)
  have d_nonpos: "d \<le> 0" if "NotAfter cert \<le> now"
    using that by (simp add: d_def Sub_def minDuration_def maxDuration_def)
  have d_day: "d \<le> - (24 * Hour)" if "NotAfter cert + 24 * Hour \<le> now"
    using that by (simp add: d_def Sub_def minDuration_def maxDuration_def Hour_def)
  from daysUntil_sign [OF r]
  have s1: "0 \<le> days" if "now \<le> NotAfter cert" using that d_nonneg by (simp add: days_def)
  from daysUntil_sign [OF r]
  have s2: "days \<le> 0" if "NotAfter cert \<le> now" using that d_nonpos by (simp add: days_def)
  have near: "d = NotAfter cert - now" if "\<bar>NotAfter cert - now\<bar> < 171 * (24 * Hour) - 1"
    unfolding d_def using that
    by (intro Sub_exact) (simp_all add: minDuration_def maxDuration_def Hour_def)
  have e1: "days = \<lfloor>(of_int (NotAfter cert - now) :: rat) / of_int (24 * Hour)\<rfloor>"
    if "now \<le> NotAfter cert \<and> NotAfter cert - now < 171 * (24 * Hour) - 1"
  proof -
    from that have a: "\<bar>NotAfter cert - now\<bar> < 171 * (24 * Hour) - 1" by simp
    from that have n: "0 \<le> NotAfter cert - now" by simp
    have "days = daysUntil (NotAfter cert - now)" by (simp add: days_def near [OF a])
    also have "\<dots> = (NotAfter cert - now) div (24 * Hour)"
      using n that by (intro daysUntil_exact_171_nonneg) simp_all
    finally show ?thesis by (simp only: floor_divide_of_int_eq)
  qed
  have e2: "days = (NotAfter cert - now) sdiv (24 * Hour)"
    if "NotAfter cert + 24 * Hour \<le> now \<and> now - NotAfter cert < 171 * (24 * Hour) - 1"
  proof -
    from that have a: "\<bar>NotAfter cert - now\<bar> < 171 * (24 * Hour) - 1" by (simp add: Hour_def)
    have "days = daysUntil (NotAfter cert - now)" by (simp add: days_def near [OF a])
    also have "\<dots> = (NotAfter cert - now) sdiv (24 * Hour)" using a by (rule daysUntil_exact_171)
    finally show ?thesis .
  qed
  have e3: "days = d sdiv (24 * Hour)" if "\<bar>d\<bar> mod (24 * Hour) \<le> 24 * Hour - 1000"
    unfolding days_def using r that by (rule daysUntil_exact_off_day_end)
  have n: "days < 0" if "NotAfter cert + 24 * Hour \<le> now"
  proof -
    from d_day [OF that] have "24 * Hour \<le> \<bar>d\<bar>" by simp
    then have "(24 * Hour) div (24 * Hour) \<le> \<bar>d\<bar> div (24 * Hour)"
      by (rule zdiv_mono1) (simp add: Hour_def)
    then have "1 \<le> \<bar>d\<bar> div (24 * Hour)" by (simp add: Hour_def)
    with b(1) have "1 \<le> \<bar>days\<bar>" by linarith
    moreover have "days \<le> 0" using that by (intro s2) (simp add: Hour_def)
    ultimately show ?thesis by simp
  qed
  have x: "NotAfter cert < now" if "NotAfter cert + 24 * Hour \<le> now"
    using that by (simp add: Hour_def)
  show ?thesis
    unfolding buildCertificateInfo_fst certificateInfoAt_simps now_def [symmetric]
      d_def [symmetric] days_def [symmetric]
    using b s1 s2 e1 e2 e3 n x by blast
qed

theorem C2_days_until_expiry_witness:
  "(readings (frozen_clock 0) (reads (frozen_clock 0))
      \<le> NotAfter \<lparr>NotAfter = 15 * (24 * Hour) + Hour, SerialNumber_String = ''1'',
           Subject_String = ''CN=a'', Issuer_String = ''CN=a''\<rparr>
    \<and> NotAfter \<lparr>NotAfter = 15 * (24 * Hour) + Hour, SerialNumber_String = ''1'',
           Subject_String = ''CN=a'', Issuer_String = ''CN=a''\<rparr>
        - readings (frozen_clock 0) (reads (frozen_clock 0)) < 171 * (24 * Hour) - 1
    \<and> DaysUntilExpiry (fst (buildCertificateInfo \<lparr>includeSubject = False, daysThreshold = 30\<rparr> ''a.pem''
        \<lparr>NotAfter = 15 * (24 * Hour) + Hour, SerialNumber_String = ''1'', Subject_String = ''CN=a'',
          Issuer_String = ''CN=a''\<rparr> (frozen_clock 0))) = 15)
   \<and> (NotAfter \<lparr>NotAfter = 0, SerialNumber_String = ''1'', Subject_String = ''CN=a'', Issuer_String = ''CN=a''\<rparr>
        + 24 * Hour \<le> readings (frozen_clock (36 * Hour)) (reads (frozen_clock (36 * Hour)))
    \<and> readings (frozen_clock (36 * Hour)) (reads (frozen_clock (36 * Hour)))
        - NotAfter \<lparr>NotAfter = 0, SerialNumber_String = ''1'', Subject_String = ''CN=a'',
            Issuer_String = ''CN=a''\<rparr> < 171 * (24 * Hour) - 1
    \<and> IsExpired (fst (buildCertificateInfo \<lparr>includeSubject = False, daysThreshold = 30\<rparr> ''a.pem''
        \<lparr>NotAfter = 0, SerialNumber_String = ''1'', Subject_String = ''CN=a'', Issuer_String = ''CN=a''\<rparr>
        (frozen_clock (36 * Hour))))
    \<and> DaysUntilExpiry (fst (buildCertificateInfo \<lparr>includeSubject = False, daysThreshold = 30\<rparr> ''a.pem''
        \<lparr>NotAfter = 0, SerialNumber_String = ''1'', Subject_String = ''CN=a'', Issuer_String = ''CN=a''\<rparr>
        (frozen_clock (36 * Hour)))) = - 1)
   \<and> (\<bar>Sub (NotAfter \<lparr>NotAfter = 200 * (24 * Hour) + Hour, SerialNumber_String = ''1'',
           Subject_String = ''CN=a'', Issuer_String = ''CN=a''\<rparr>)
         (readings (frozen_clock 0) (reads (frozen_clock 0)))\<bar> mod (24 * Hour) \<le> 24 * Hour - 1000
    \<and> DaysUntilExpiry (fst (buildCertificateInfo \<lparr>includeSubject = False, daysThreshold = 30\<rparr> ''a.pem''
        \<lparr>NotAfter = 200 * (24 * Hour) + Hour, SerialNumber_String = ''1'', Subject_String = ''CN=a'',
          Issuer_String = ''CN=a''\<rparr> (frozen_clock 0))) = 200)"
proof -
  have f: "\<lfloor>(of_int (15 * (24 * Hour) + Hour) :: rat) / of_int (24 * Hour)\<rfloor> = 15"
    unfolding floor_divide_of_int_eq by (simp add: Hour_def)
  from C2_days_until_expiry [of "\<lparr>includeSubject = False, daysThreshold = 30\<rparr>" "''a.pem''"
      "\<lparr>NotAfter = 15 * (24 * Hour) + Hour, SerialNumber_String = ''1'', Subject_String = ''CN=a'',
        Issuer_String = ''CN=a''\<rparr>" "frozen_clock 0"]
  have a: "DaysUntilExpiry (fst (buildCertificateInfo \<lparr>includeSubject = False, daysThreshold = 30\<rparr> ''a.pem''
        \<lparr>NotAfter = 15 * (24 * Hour) + Hour, SerialNumber_String = ''1'', Subject_String = ''CN=a'',
          Issuer_String = ''CN=a''\<rparr> (frozen_clock 0))) = 15"
    using f by (simp add: frozen_clock_def Hour_def)
  have s: "(0 - 36 * Hour) sdiv (24 * Hour) = - 1"
    by (simp add: signed_divide_int_def Hour_def)
  from C2_days_until_expiry [of "\<lparr>includeSubject = False, daysThreshold = 30\<rparr>" "''a.pem''"
      "\<lparr>NotAfter = 0, SerialNumber_String = ''1'', Subject_String = ''CN=a'', Issuer_String = ''CN=a''\<rparr>"
      "frozen_clock (36 * Hour)"]
  have b: "IsExpired (fst (buildCertificateInfo \<lparr>includeSubject = False, daysThreshold = 30\<rparr> ''a.pem''
        \<lparr>NotAfter = 0, SerialNumber_String = ''1'', Subject_String = ''CN=a'', Issuer_String = ''CN=a''\<rparr>
        (frozen_clock (36 * Hour))))
    \<and> DaysUntilExpiry (fst (buildCertificateInfo \<lparr>includeSubject = False, daysThreshold = 30\<rparr> ''a.pem''
        \<lparr>NotAfter = 0, SerialNumber_String = ''1'', Subject_String = ''CN=a'', Issuer_String = ''CN=a''\<rparr>
        (frozen_clock (36 * Hour)))) = - 1"
    using s by (simp add: frozen_clock_def Hour_def)
  have D: "Sub 17283600000000000 0 = 17283600000000000"
    by (simp add: Sub_def minDuration_def maxDuration_def)
  have t: "(17283600000000000 :: int) sdiv 86400000000000 = 200"
    by (simp add: signed_divide_int_def)
  from C2_days_until_expiry [of "\<lparr>includeSubject = False, daysThreshold = 30\<rparr>" "''a.pem''"
      "\<lparr>NotAfter = 200 * (24 * Hour) + Hour, SerialNumber_String = ''1'', Subject_String = ''CN=a'',
        Issuer_String = ''CN=a''\<rparr>" "frozen_clock 0"]
  have c: "DaysUntilExpiry (fst (buildCertificateInfo \<lparr>includeSubject = False, daysThreshold = 30\<rparr> ''a.pem''
        \<lparr>NotAfter = 200 * (24 * Hour) + Hour, SerialNumber_String = ''1'', Subject_String = ''CN=a'',
          Issuer_String = ''CN=a''\<rparr> (frozen_clock 0))) = 200"
    using D t by (simp add: frozen_clock_def Hour_def)
  show ?thesis using a b c D by (simp add: frozen_clock_def Hour_def)
qed

subsection \<open>The loop of \<open>ParseData\<close>\<close>

lemma map_upt_Suc_shift: "map f [0..<Suc n] = f 0 # map (\<lambda>i. f (Suc i)) [0..<n]"
  by (simp only: map_upt_Suc) 

lemma buildCertificateInfo_eq:
  "buildCertificateInfo p fp cert w =
     (certificateInfoAt (readings w (reads w)) p fp cert, w\<lparr>reads := Suc (reads w)\<rparr>)"
  by (simp add: buildCertificateInfo_def time_Now_def)

text \<open>
  The loop over a buffer whose certificate blocks all parse: one record for each of
  them, in their order, each from a clock reading of its own.
\<close>

lemma ParseData_loop_blocks:
  assumes "pem_blocks L remaining bs"
    and "map (\<lambda>b. x509_ParseCertificate L (Bytes b)) (filter (\<lambda>b. Type b = ''CERTIFICATE'') bs)
         = map Inr cs"
  shows "ParseData_loop L p fp remaining certs w =
    Some (Inr (certs @ map (\<lambda>i. certificateInfoAt (readings w (reads w + i)) p fp (cs ! i)) [0..<length cs]),
          w\<lparr>reads := reads w + length cs\<rparr>)"
  using assms
proof (induction arbitrary: certs w cs rule: pem_blocks.induct)
  case used_up
  then show ?case by (subst ParseData_loop.simps) simp
next
  case (no_block remaining)
  then show ?case by (subst ParseData_loop.simps) (simp add: split_beta)
next
  case (block remaining b rest bs)
  show ?case
  proof (cases "Type b = ''CERTIFICATE''")
    case True
    with block.prems obtain c cs' where cs: "cs = c # cs'"
      and c: "x509_ParseCertificate L (Bytes b) = Inr c"
      and rest: "map (\<lambda>b. x509_ParseCertificate L (Bytes b)) (filter (\<lambda>b. Type b = ''CERTIFICATE'') bs)
         = map Inr cs'"
      by (cases cs) auto
    have "ParseData_loop L p fp remaining certs w =
        ParseData_loop L p fp rest (certs @ [certificateInfoAt (readings w (reads w)) p fp c])
          (w\<lparr>reads := Suc (reads w)\<rparr>)"
      using block.hyps(1,2) True c
      by (subst ParseData_loop.simps) (simp add: buildCertificateInfo_eq)
    also note block.IH [OF rest]
    finally show ?thesis
      by (simp add: cs map_upt_Suc_shift del: upt_Suc)
  next
    case False
    with block.prems have rest: "map (\<lambda>b. x509_ParseCertificate L (Bytes b))
        (filter (\<lambda>b. Type b = ''CERTIFICATE'') bs) = map Inr cs" by simp
    have "ParseData_loop L p fp remaining certs w = ParseData_loop L p fp rest certs w"
      using block.hyps(1,2) False by (subst ParseData_loop.simps) simp
    also note block.IH [OF rest]
    finally show ?thesis .
  qed
qed

lemma ParseData_blocks:
  assumes "pem_blocks L data bs"
    and "map (\<lambda>b. x509_ParseCertificate L (Bytes b)) (filter (\<lambda>b. Type b = ''CERTIFICATE'') bs)
         = map Inr cs"
    and "cs \<noteq> []"
  shows "ParseData L p fp data w =
    Some (Inr (map (\<lambda>i. certificateInfoAt (readings w (reads w + i)) p fp (cs ! i)) [0..<length cs]),
          w\<lparr>reads := reads w + length cs\<rparr>)"
  using assms(3)
  by (simp add: ParseData_def ParseData_loop_blocks [OF assms(1,2)] ParseData_DER_def
      ParseData_finish_def)

text \<open>What every run of the loop that ends has done, whatever \<open>pem.Decode\<close> delivers.\<close>

lemma ParseData_loop_invariant:
  assumes "ParseData_loop L p fp remaining certs w = Some y"
  shows "case y of (r, w') \<Rightarrow> readings w' = readings w \<and> trace w' = trace w \<and> chan_log w' = chan_log w \<and> wg w' = wg w
    \<and> (case r of
          Inl err \<Rightarrow> (\<exists>e. err = ParseFailed e)
        | Inr certs' \<Rightarrow>
            (\<exists>new. certs' = certs @ new \<and> reads w' = reads w + length new
              \<and> (\<forall>i < length new. \<exists>cert.
                    new ! i = certificateInfoAt (readings w (reads w + i)) p fp cert)))"
  using assms
proof (induction rule: ParseData_loop.raw_induct [rotated 1, consumes 1, case_names step])
  case (step loop L p fp remaining certs w y)
  note 1 = step
  obtain r w' where y: "y = (r, w')" by (cases y)
  have "readings w' = readings w \<and> trace w' = trace w \<and> chan_log w' = chan_log w \<and> wg w' = wg w
    \<and> (case r of
          Inl err \<Rightarrow> (\<exists>e. err = ParseFailed e)
        | Inr certs' \<Rightarrow>
            (\<exists>new. certs' = certs @ new \<and> reads w' = reads w + length new
              \<and> (\<forall>i < length new. \<exists>cert.
                    new ! i = certificateInfoAt (readings w (reads w + i)) p fp cert)))"
  proof (cases "remaining = []")
    case True
    with 1(2) y show ?thesis by auto
  next
    case False
    obtain blk rest where dec: "pem_Decode L remaining = (blk, rest)" by (cases "pem_Decode L remaining")
    show ?thesis
    proof (cases blk)
      case None
      with 1(2) y False dec show ?thesis by auto
    next
      case (Some block)
      show ?thesis
      proof (cases "Type block = ''CERTIFICATE''")
        case notcert: False
        with 1(2) y False dec Some have "loop L p fp rest certs w = Some (r, w')" by simp
        from 1(1) [OF this] show ?thesis by simp
      next
        case cert: True
        show ?thesis
        proof (cases "x509_ParseCertificate L (Bytes block)")
          case (Inl e)
          with 1(2) y False dec Some cert show ?thesis by auto
        next
          case (Inr c)
          define info where "info = certificateInfoAt (readings w (reads w)) p fp c"
          define w1 where "w1 = w\<lparr>reads := Suc (reads w)\<rparr>"
          from 1(2) y False dec Some cert Inr
          have "loop L p fp rest (certs @ [info]) w1 = Some (r, w')"
            by (simp add: buildCertificateInfo_eq info_def w1_def)
          from 1(1) [OF this] have ih: "readings w' = readings w1 \<and> trace w' = trace w1
              \<and> chan_log w' = chan_log w1 \<and> wg w' = wg w1
              \<and> (case r of
                    Inl err \<Rightarrow> (\<exists>e. err = ParseFailed e)
                  | Inr certs' \<Rightarrow>
                      (\<exists>new. certs' = (certs @ [info]) @ new \<and> reads w' = reads w1 + length new
                        \<and> (\<forall>i < length new. \<exists>cert.
                              new ! i = certificateInfoAt (readings w1 (reads w1 + i)) p fp cert)))"
            by simp
          show ?thesis
          proof (cases r)
            case (Inl err)
            with ih show ?thesis by (simp add: w1_def)
          next
            case (Inr certs')
            with ih obtain new where new: "certs' = (certs @ [info]) @ new"
              "reads w' = reads w1 + length new"
              "\<forall>i < length new. \<exists>cert. new ! i = certificateInfoAt (readings w1 (reads w1 + i)) p fp cert"
              by auto
            have a: "certs' = certs @ (info # new)" using new(1) by simp
            have b: "reads w' = reads w + length (info # new)" using new(2) by (simp add: w1_def)
            have c: "\<exists>cert. (info # new) ! i = certificateInfoAt (readings w (reads w + i)) p fp cert"
              if "i < length (info # new)" for i
            proof (cases i)
              case 0
              then show ?thesis by (auto simp: info_def)
            next
              case (Suc j)
              with that have "j < length new" by simp
              with new(3) obtain cert where
                "new ! j = certificateInfoAt (readings w1 (reads w1 + j)) p fp cert" by blast
              then show ?thesis using Suc by (auto simp: w1_def)
            qed
            from a b c ih Inr show ?thesis by (simp add: w1_def)
          qed
        qed
      qed
    qed
  qed
  then show ?case by (simp add: y)
qed

lemma ParseData_invariant:
  assumes "ParseData L p fp data w = Some (r, w')"
  shows "readings w' = readings w \<and> trace w' = trace w \<and> chan_log w' = chan_log w \<and> wg w' = wg w
    \<and> (case r of
          Inl err \<Rightarrow> (\<exists>e. err = ParseFailed e)
        | Inr infos \<Rightarrow>
            infos \<noteq> [] \<and> reads w' = reads w + length infos
            \<and> (\<forall>i < length infos. \<exists>cert.
                  infos ! i = certificateInfoAt (readings w (reads w + i)) p fp cert))"
proof -
  from assms obtain r1 w1 where loop: "ParseData_loop L p fp data [] w = Some (r1, w1)"
    by (auto simp: ParseData_def split: option.splits)
  from ParseData_loop_invariant [OF loop]
  have inv: "readings w1 = readings w \<and> trace w1 = trace w \<and> chan_log w1 = chan_log w \<and> wg w1 = wg w
    \<and> (case r1 of
          Inl err \<Rightarrow> (\<exists>e. err = ParseFailed e)
        | Inr certs' \<Rightarrow>
            (\<exists>new. certs' = [] @ new \<and> reads w1 = reads w + length new
              \<and> (\<forall>i < length new. \<exists>cert.
                    new ! i = certificateInfoAt (readings w (reads w + i)) p fp cert)))"
    by simp
  show ?thesis
  proof (cases r1)
    case (Inl err)
    with assms loop have "r = Inl err" and "w' = w1" by (simp_all add: ParseData_def)
    with inv Inl show ?thesis by simp
  next
    case (Inr certs)
    with assms loop have der: "ParseData_DER L p fp data certs w1 = (r, w')"
      by (simp add: ParseData_def)
    show ?thesis
    proof (cases "certs = []")
      case False
      with der have "r = Inr certs" and "w' = w1"
        by (simp_all add: ParseData_DER_def ParseData_finish_def)
      with inv Inr False show ?thesis by simp
    next
      case True
      with inv Inr have w1: "reads w1 = reads w" by simp
      show ?thesis
      proof (cases "x509_ParseCertificate L data")
        case (Inl e)
        with der True have "r = Inl (ParseFailed e)" and "w' = w1"
          by (simp_all add: ParseData_DER_def)
        with inv show ?thesis by simp
      next
        case cert: (Inr c)
        with der True have "r = Inr [certificateInfoAt (readings w1 (reads w1)) p fp c]"
          and "w' = w1\<lparr>reads := Suc (reads w1)\<rparr>"
          by (simp_all add: ParseData_DER_def ParseData_finish_def buildCertificateInfo_eq)
        with inv w1 show ?thesis by auto
      qed
    qed
  qed
qed

text \<open>The result of \<open>ParseData\<close> is never the error "no certificates found in file".\<close>

lemma ParseData_never_NoCertificatesFound:
  "ParseData L p fp data w \<noteq> Some (Inl NoCertificatesFound, w')"
proof
  assume "ParseData L p fp data w = Some (Inl NoCertificatesFound, w')"
  from ParseData_invariant [OF this] show False by simp
qed

lemma daysUntil_3_days: "daysUntil (3 * (24 * Hour)) = 3"
  by (rule daysUntil_whole_days) simp_all

lemma daysUntil_3_days_less_1ns: "daysUntil (3 * (24 * Hour) - 1) = 2"
proof -
  have "daysUntil (3 * (24 * Hour) - 1) = (3 * (24 * Hour) - 1) sdiv (24 * Hour)"
    by (rule daysUntil_exact) (simp add: Hour_def)
  also have "\<dots> = 2" by (simp add: signed_divide_int_def Hour_def)
  finally show ?thesis .
qed

subsection \<open>The miniature library\<close>

lemma mini_simps [simp]:
  "pem_Decode mini = mini_Decode"
  "x509_ParseCertificate mini = mini_ParseCertificate"
  "os_Stat mini = mini_Stat"
  "os_ReadFile mini = mini_ReadFile"
  by (simp_all add: mini_def)

lemma mini_Decode_simps [simp]:
  "mini_Decode (CHR ''C'' # x # rest) = (Some \<lparr>Type = ''CERTIFICATE'', Bytes = [x]\<rparr>, rest)"
  "mini_Decode (CHR ''K'' # x # rest) = (Some \<lparr>Type = ''PRIVATE KEY'', Bytes = [x]\<rparr>, rest)"
  "mini_Decode ''invalid pem data'' = (None, ''invalid pem data'')"
  by (simp_all add: mini_Decode_def)

lemma mini_ParseCertificate_simps [simp]:
  "mini_ParseCertificate ''1'' = Inr \<lparr>NotAfter = 1 * (24 * Hour), SerialNumber_String = ''1'',
     Subject_String = ''CN=mini'', Issuer_String = ''CN=mini''\<rparr>"
  "mini_ParseCertificate ''3'' = Inr \<lparr>NotAfter = 3 * (24 * Hour), SerialNumber_String = ''3'',
     Subject_String = ''CN=mini'', Issuer_String = ''CN=mini''\<rparr>"
  "mini_ParseCertificate ''5'' = Inr \<lparr>NotAfter = 5 * (24 * Hour), SerialNumber_String = ''5'',
     Subject_String = ''CN=mini'', Issuer_String = ''CN=mini''\<rparr>"
  "mini_ParseCertificate ''6'' = Inr \<lparr>NotAfter = 6 * (24 * Hour), SerialNumber_String = ''6'',
     Subject_String = ''CN=mini'', Issuer_String = ''CN=mini''\<rparr>"
  "mini_ParseCertificate ''invalid pem data'' = Inl (X509Error ''x509: malformed certificate'')"
  by (simp_all add: mini_ParseCertificate_def)

lemma mini_chain:
  "pem_blocks mini ''C3C1C6'' [\<lparr>Type = ''CERTIFICATE'', Bytes = ''3''\<rparr>,
     \<lparr>Type = ''CERTIFICATE'', Bytes = ''1''\<rparr>, \<lparr>Type = ''CERTIFICATE'', Bytes = ''6''\<rparr>]"
  by (rule pem_blocks.block, simp, simp)+ (rule pem_blocks.used_up)

lemma mini_twice:
  "pem_blocks mini ''C3C3'' [\<lparr>Type = ''CERTIFICATE'', Bytes = ''3''\<rparr>,
     \<lparr>Type = ''CERTIFICATE'', Bytes = ''3''\<rparr>]"
  by (rule pem_blocks.block, simp, simp)+ (rule pem_blocks.used_up)

lemma mini_key_and_cert:
  "pem_blocks mini ''KxC5'' [\<lparr>Type = ''PRIVATE KEY'', Bytes = ''x''\<rparr>,
     \<lparr>Type = ''CERTIFICATE'', Bytes = ''5''\<rparr>]"
  by (rule pem_blocks.block, simp, simp)+ (rule pem_blocks.used_up)

subsection \<open>Claims about \<open>ParseData\<close>\<close>

lemma map_nth_upt: "map (\<lambda>i. f (xs ! i)) [0..<length xs] = map f xs"
  by (rule nth_equalityI) simp_all

text \<open>
  C4. A buffer of \<open>N \<ge> 1\<close> blocks of type \<open>CERTIFICATE\<close>, each with a payload that
  \<open>x509.ParseCertificate\<close> accepts, parses to exactly \<open>N\<close> records, one for each block
  and in the order of the blocks: the records carry the path of the file and the
  expiry dates and serial numbers of the blocks' certificates, in that order.
\<close>

theorem C4_one_record_per_block:
  assumes "pem_blocks L data bs"
    and "bs \<noteq> []"
    and "\<forall>b \<in> set bs. Type b = ''CERTIFICATE''"
    and "map (\<lambda>b. x509_ParseCertificate L (Bytes b)) bs = map Inr cs"
  shows "\<exists>infos w'. ParseData L p fp data w = Some (Inr infos, w')
    \<and> length infos = length bs
    \<and> map ExpirationDate infos = map NotAfter cs
    \<and> map SerialNumber infos = map SerialNumber_String cs
    \<and> (\<forall>info \<in> set infos. Path info = fp)"
proof -
  have f: "filter (\<lambda>b. Type b = ''CERTIFICATE'') bs = bs" using assms(3) by simp
  have len: "length cs = length bs" using assms(4) by (metis length_map)
  with assms(2) have cs: "cs \<noteq> []" by auto
  have parse: "map (\<lambda>b. x509_ParseCertificate L (Bytes b)) (filter (\<lambda>b. Type b = ''CERTIFICATE'') bs)
      = map Inr cs" using assms(4) by (simp only: f)
  define infos where
    "infos = map (\<lambda>i. certificateInfoAt (readings w (reads w + i)) p fp (cs ! i)) [0..<length cs]"
  have "ParseData L p fp data w = Some (Inr infos, w\<lparr>reads := reads w + length cs\<rparr>)"
    unfolding infos_def using assms(1) parse cs by (rule ParseData_blocks)
  moreover have "length infos = length bs" by (simp add: infos_def len)
  moreover have "map ExpirationDate infos = map NotAfter cs"
    by (simp add: infos_def map_nth_upt comp_def)
  moreover have "map SerialNumber infos = map SerialNumber_String cs"
    by (simp add: infos_def map_nth_upt comp_def)
  moreover have "\<forall>info \<in> set infos. Path info = fp" by (auto simp: infos_def)
  ultimately show ?thesis by blast
qed

theorem C4_one_record_per_block_witness:
  "pem_blocks mini ''C3C1C6'' [\<lparr>Type = ''CERTIFICATE'', Bytes = ''3''\<rparr>,
     \<lparr>Type = ''CERTIFICATE'', Bytes = ''1''\<rparr>, \<lparr>Type = ''CERTIFICATE'', Bytes = ''6''\<rparr>]
   \<and> (\<exists>infos w'. ParseData mini parser30 ''chain.pem'' ''C3C1C6'' (frozen_clock 0) = Some (Inr infos, w')
        \<and> length infos = 3
        \<and> map ExpirationDate infos = [3 * (24 * Hour), 1 * (24 * Hour), 6 * (24 * Hour)]
        \<and> map SerialNumber infos = [''3'', ''1'', ''6''])"
proof -
  have "map (\<lambda>b. x509_ParseCertificate mini (Bytes b)) [\<lparr>Type = ''CERTIFICATE'', Bytes = ''3''\<rparr>,
      \<lparr>Type = ''CERTIFICATE'', Bytes = ''1''\<rparr>, \<lparr>Type = ''CERTIFICATE'', Bytes = ''6''\<rparr>]
    = map Inr [\<lparr>NotAfter = 3 * (24 * Hour), SerialNumber_String = ''3'',
         Subject_String = ''CN=mini'', Issuer_String = ''CN=mini''\<rparr>,
       \<lparr>NotAfter = 1 * (24 * Hour), SerialNumber_String = ''1'',
         Subject_String = ''CN=mini'', Issuer_String = ''CN=mini''\<rparr>,
       \<lparr>NotAfter = 6 * (24 * Hour), SerialNumber_String = ''6'',
         Subject_String = ''CN=mini'', Issuer_String = ''CN=mini''\<rparr>]"
    by simp
  from C4_one_record_per_block [OF mini_chain _ _ this, of parser30 "''chain.pem''" "frozen_clock 0"]
  show ?thesis using mini_chain by (auto simp: numeral_3_eq_3)
qed

text \<open>
  C9. Blocks of another type than \<open>CERTIFICATE\<close> are passed over: when the certificate
  blocks of the buffer parse, the loop ends without an error and with one record for
  each certificate block, whatever the other blocks hold; and when there is at least one
  certificate block, these records are the result of \<open>ParseData\<close>.
\<close>

theorem C9_other_blocks_skipped:
  assumes "pem_blocks L data bs"
    and "map (\<lambda>b. x509_ParseCertificate L (Bytes b)) (filter (\<lambda>b. Type b = ''CERTIFICATE'') bs)
         = map Inr cs"
  shows "\<exists>infos w'. ParseData_loop L p fp data [] w = Some (Inr infos, w')
    \<and> length infos = length (filter (\<lambda>b. Type b = ''CERTIFICATE'') bs)
    \<and> map ExpirationDate infos = map NotAfter cs
    \<and> map SerialNumber infos = map SerialNumber_String cs
    \<and> (cs \<noteq> [] \<longrightarrow> ParseData L p fp data w = Some (Inr infos, w'))"
proof -
  have len: "length cs = length (filter (\<lambda>b. Type b = ''CERTIFICATE'') bs)"
    using assms(2) by (metis length_map)
  define infos where
    "infos = map (\<lambda>i. certificateInfoAt (readings w (reads w + i)) p fp (cs ! i)) [0..<length cs]"
  have "ParseData_loop L p fp data [] w = Some (Inr infos, w\<lparr>reads := reads w + length cs\<rparr>)"
    unfolding infos_def using ParseData_loop_blocks [OF assms, of p fp "[]" w] by simp
  moreover have "length infos = length (filter (\<lambda>b. Type b = ''CERTIFICATE'') bs)"
    by (simp add: infos_def len)
  moreover have "map ExpirationDate infos = map NotAfter cs"
    by (simp add: infos_def map_nth_upt comp_def)
  moreover have "map SerialNumber infos = map SerialNumber_String cs"
    by (simp add: infos_def map_nth_upt comp_def)
  moreover have "ParseData L p fp data w = Some (Inr infos, w\<lparr>reads := reads w + length cs\<rparr>)"
    if "cs \<noteq> []"
    unfolding infos_def using assms that by (rule ParseData_blocks)
  ultimately show ?thesis by blast
qed

theorem C9_other_blocks_skipped_witness:
  "pem_blocks mini ''KxC5'' [\<lparr>Type = ''PRIVATE KEY'', Bytes = ''x''\<rparr>,
     \<lparr>Type = ''CERTIFICATE'', Bytes = ''5''\<rparr>]
   \<and> (\<exists>infos w'. ParseData mini parser30 ''key-and-cert.pem'' ''KxC5'' (frozen_clock 0) = Some (Inr infos, w')
        \<and> length infos = 1
        \<and> map ExpirationDate infos = [5 * (24 * Hour)]
        \<and> map SerialNumber infos = [''5''])"
proof -
  have "map (\<lambda>b. x509_ParseCertificate mini (Bytes b))
      (filter (\<lambda>b. Type b = ''CERTIFICATE'') [\<lparr>Type = ''PRIVATE KEY'', Bytes = ''x''\<rparr>,
         \<lparr>Type = ''CERTIFICATE'', Bytes = ''5''\<rparr>])
    = map Inr [\<lparr>NotAfter = 5 * (24 * Hour), SerialNumber_String = ''5'',
         Subject_String = ''CN=mini'', Issuer_String = ''CN=mini''\<rparr>]"
    by simp
  from C9_other_blocks_skipped [OF mini_key_and_cert this, of parser30 "''key-and-cert.pem''" "frozen_clock 0"]
  show ?thesis using mini_key_and_cert by auto
qed

lemma mini_ParseData_twice:
  "ParseData mini parser30 ''chain.pem'' ''C3C3'' (ticking_clock 0 1) =
     Some (Inr [certificateInfoAt 0 parser30 ''chain.pem''
                  \<lparr>NotAfter = 3 * (24 * Hour), SerialNumber_String = ''3'',
                    Subject_String = ''CN=mini'', Issuer_String = ''CN=mini''\<rparr>,
                certificateInfoAt 1 parser30 ''chain.pem''
                  \<lparr>NotAfter = 3 * (24 * Hour), SerialNumber_String = ''3'',
                    Subject_String = ''CN=mini'', Issuer_String = ''CN=mini''\<rparr>],
           (ticking_clock 0 1)\<lparr>reads := 2\<rparr>)"
proof -
  have "map (\<lambda>b. x509_ParseCertificate mini (Bytes b))
      (filter (\<lambda>b. Type b = ''CERTIFICATE'') [\<lparr>Type = ''CERTIFICATE'', Bytes = ''3''\<rparr>,
         \<lparr>Type = ''CERTIFICATE'', Bytes = ''3''\<rparr>])
    = map Inr [\<lparr>NotAfter = 3 * (24 * Hour), SerialNumber_String = ''3'',
         Subject_String = ''CN=mini'', Issuer_String = ''CN=mini''\<rparr>,
       \<lparr>NotAfter = 3 * (24 * Hour), SerialNumber_String = ''3'',
         Subject_String = ''CN=mini'', Issuer_String = ''CN=mini''\<rparr>]"
    by simp
  from ParseData_blocks [OF mini_twice this, of parser30 "''chain.pem''" "ticking_clock 0 1"]
  show ?thesis by (simp add: ticking_clock_def numeral_2_eq_2)
qed

lemma days_at_0: "daysUntil (Sub (3 * (24 * Hour)) 0) = 3"
proof -
  have "Sub (3 * (24 * Hour)) 0 = 3 * (24 * Hour)"
    by (simp add: Sub_def minDuration_def maxDuration_def Hour_def)
  then show ?thesis by (simp only: daysUntil_3_days)
qed

lemma days_at_1: "daysUntil (Sub (3 * (24 * Hour)) 1) = 2"
proof -
  have "Sub (3 * (24 * Hour)) 1 = 3 * (24 * Hour) - 1"
    by (simp add: Sub_def minDuration_def maxDuration_def Hour_def)
  then show ?thesis by (simp only: daysUntil_3_days_less_1ns)
qed

text \<open>
  C1 does not hold as stated. The file holds the same certificate twice, and the clock
  advances by a nanosecond from one reading to the next. \<open>ParseData\<close> reads the clock
  twice, once for each record, and the two records of the one certificate get three and
  two days until expiry.
\<close>

theorem C1_counterexample:
  "map_option (map_prod (map_sum id (map DaysUntilExpiry)) reads)
     (ParseData mini parser30 ''chain.pem'' ''C3C3'' (ticking_clock 0 1)) = Some (Inr [3, 2], 2)"
  using days_at_0 days_at_1 by (simp add: mini_ParseData_twice)

text \<open>
  C1, amended. The time is sampled once for each record, by \<open>buildCertificateInfo\<close>:
  a call of the parser that returns \<open>N\<close> records has read the clock \<open>N\<close> times, and the
  days until expiry, the expired flag and the expiring-soon flag of the \<open>i\<close>-th record
  all come from the \<open>i\<close>-th of these readings.
\<close>

theorem C1_one_sample_per_record:
  assumes "ParseData L p fp data w = Some (Inr infos, w')"
  shows "reads w' = reads w + length infos
    \<and> (\<forall>i < length infos.
          DaysUntilExpiry (infos ! i)
            = daysUntil (Sub (ExpirationDate (infos ! i)) (readings w (reads w + i)))
          \<and> IsExpired (infos ! i) = (ExpirationDate (infos ! i) < readings w (reads w + i))
          \<and> IsExpiringSoon (infos ! i)
            = (0 \<le> daysUntil (Sub (ExpirationDate (infos ! i)) (readings w (reads w + i)))
               \<and> daysUntil (Sub (ExpirationDate (infos ! i)) (readings w (reads w + i)))
                  \<le> daysThreshold p))"
proof -
  from ParseData_invariant [OF assms]
  have r: "reads w' = reads w + length infos"
    and each: "\<forall>i < length infos. \<exists>cert.
      infos ! i = certificateInfoAt (readings w (reads w + i)) p fp cert" by simp_all
  have "DaysUntilExpiry (infos ! i)
            = daysUntil (Sub (ExpirationDate (infos ! i)) (readings w (reads w + i)))
          \<and> IsExpired (infos ! i) = (ExpirationDate (infos ! i) < readings w (reads w + i))
          \<and> IsExpiringSoon (infos ! i)
            = (0 \<le> daysUntil (Sub (ExpirationDate (infos ! i)) (readings w (reads w + i)))
               \<and> daysUntil (Sub (ExpirationDate (infos ! i)) (readings w (reads w + i)))
                  \<le> daysThreshold p)" if "i < length infos" for i
  proof -
    from each that obtain cert where
      "infos ! i = certificateInfoAt (readings w (reads w + i)) p fp cert" by blast
    then show ?thesis by auto
  qed
  with r show ?thesis by blast
qed

theorem C1_one_sample_per_record_witness:
  "\<exists>infos w'. ParseData mini parser30 ''chain.pem'' ''C3C3'' (ticking_clock 0 1) = Some (Inr infos, w')
     \<and> length infos = 2 \<and> reads w' = 2
     \<and> DaysUntilExpiry (infos ! 0) = daysUntil (Sub (ExpirationDate (infos ! 0)) 0)
     \<and> DaysUntilExpiry (infos ! 1) = daysUntil (Sub (ExpirationDate (infos ! 1)) 1)"
proof -
  note e = mini_ParseData_twice
  from C1_one_sample_per_record [OF e]
  show ?thesis unfolding e by (simp add: ticking_clock_def)
qed

text \<open>
  C5 does not hold of the code. For the buffer \<open>invalid pem data\<close>, which holds no PEM
  block and is no DER certificate, \<open>ParseData\<close> fails with the error of a malformed
  payload, "failed to parse certificate", and not with "no certificates found in file".
\<close>

theorem C5_invalid_pem:
  "ParseData mini parser30 ''invalid.pem'' ''invalid pem data'' (frozen_clock 0)
     = Some (Inl (ParseFailed (X509Error ''x509: malformed certificate'')), frozen_clock 0)"
  unfolding ParseData_def
  by (subst ParseData_loop.simps) (simp add: ParseData_DER_def)

subsection \<open>Claims about \<open>ParseFileWithContext\<close>\<close>

text \<open>
  C6. When \<open>os.Stat\<close> reports a size above \<open>MaxFileSize\<close>, which is 100 MB,
  \<open>ParseFileWithContext\<close> fails with the error for a file that is too large. The call of
  \<open>os.Stat\<close> is the only access to the file system, and the result is the same whatever
  reading the file would give.
\<close>

theorem C6_file_too_large:
  assumes "os_Stat L fp = Inr fi" and "MaxFileSize < Size fi"
  shows "ParseFileWithContext L p ctx fp w = Some (Inl FileTooLarge, w\<lparr>trace := trace w @ [Stat fp]\<rparr>)
    \<and> ParseFileWithContext (L\<lparr>os_ReadFile := rf\<rparr>) p ctx fp w
        = Some (Inl FileTooLarge, w\<lparr>trace := trace w @ [Stat fp]\<rparr>)
    \<and> MaxFileSize = 100 * 1024 * 1024"
  using assms by (simp add: ParseFileWithContext_def Let_def MaxFileSize_def)

theorem C6_file_too_large_witness:
  "os_Stat mini ''large.pem'' = Inr \<lparr>Size = MaxFileSize + 1\<rparr>
   \<and> MaxFileSize < Size \<lparr>Size = MaxFileSize + 1\<rparr>
   \<and> ParseFileWithContext mini parser30 None ''large.pem'' (frozen_clock 0)
        = Some (Inl FileTooLarge, (frozen_clock 0)\<lparr>trace := [Stat ''large.pem'']\<rparr>)"
proof -
  have a: "os_Stat mini ''large.pem'' = Inr \<lparr>Size = MaxFileSize + 1\<rparr>"
    by (simp add: mini_Stat_def)
  have b: "MaxFileSize < Size \<lparr>Size = MaxFileSize + 1\<rparr>" by simp
  from C6_file_too_large [OF a b, of parser30 None "frozen_clock 0"]
  show ?thesis using a b by (simp add: frozen_clock_def)
qed

subsection \<open>One worker\<close>

lemma ParseFileWithContext_invariant:
  assumes "ParseFileWithContext L p ctx fp w = Some (r, w')"
  shows "chan_log w' = chan_log w \<and> wg w' = wg w
    \<and> (case r of Inl err \<Rightarrow> True
        | Inr infos \<Rightarrow> infos \<noteq> [] \<and> list_all (\<lambda>info. Path info = fp) infos)"
proof (cases "os_Stat L fp")
  case (Inl err)
  with assms show ?thesis by (auto simp: ParseFileWithContext_def Let_def)
next
  case stat: (Inr fi)
  show ?thesis
  proof (cases "Size fi > MaxFileSize")
    case True
    with assms stat show ?thesis by (auto simp: ParseFileWithContext_def Let_def)
  next
    case False
    define w1 where "w1 = w\<lparr>trace := trace w @ [Stat fp]\<rparr>"
    obtain rd w2 where rd: "readFileWithContext L ctx fp w1 = (rd, w2)"
      by (cases "readFileWithContext L ctx fp w1")
    then have w2: "chan_log w2 = chan_log w" "wg w2 = wg w"
      by (auto simp: readFileWithContext_def Let_def w1_def split: option.splits)
    show ?thesis
    proof (cases rd)
      case (Inl err)
      with assms stat False rd w2 show ?thesis
        by (auto simp: ParseFileWithContext_def Let_def w1_def)
    next
      case (Inr data)
      with assms stat False rd have pd: "ParseData L p fp data w2 = Some (r, w')"
        by (simp add: ParseFileWithContext_def Let_def w1_def)
      from ParseData_invariant [OF pd]
      have c: "chan_log w' = chan_log w2" "wg w' = wg w2"
        and r: "case r of Inl err \<Rightarrow> (\<exists>e. err = ParseFailed e)
          | Inr infos \<Rightarrow> infos \<noteq> [] \<and> reads w' = reads w2 + length infos
              \<and> (\<forall>i < length infos. \<exists>cert.
                    infos ! i = certificateInfoAt (readings w2 (reads w2 + i)) p fp cert)"
        by simp_all
      show ?thesis
      proof (cases r)
        case (Inl err)
        with c w2 show ?thesis by simp
      next
        case infos: (Inr infos)
        with r have ne: "infos \<noteq> []"
          and each: "\<forall>i < length infos. \<exists>cert.
            infos ! i = certificateInfoAt (readings w2 (reads w2 + i)) p fp cert" by simp_all
        have "Path info = fp" if "info \<in> set infos" for info
        proof -
          from that obtain i where "i < length infos" "infos ! i = info"
            by (auto simp: in_set_conv_nth)
          with each show ?thesis by auto
        qed
        then have "list_all (\<lambda>info. Path info = fp) infos" by (simp add: list_all_iff)
        with ne c w2 infos show ?thesis by simp
      qed
    qed
  qed
qed

lemma processFileWithContext_outcome:
  assumes "processFileWithContext L p ctx fp w = Some (result, w')"
  shows "outcome_for fp result \<and> chan_log w' = chan_log w \<and> wg w' = wg w"
proof -
  from assms obtain r where pf: "ParseFileWithContext L p ctx fp w = Some (r, w')"
    by (auto simp: processFileWithContext_def split: option.splits sum.splits)
  from ParseFileWithContext_invariant [OF pf]
  have c: "chan_log w' = chan_log w" "wg w' = wg w"
    and r: "case r of Inl err \<Rightarrow> True
        | Inr infos \<Rightarrow> infos \<noteq> [] \<and> list_all (\<lambda>info. Path info = fp) infos" by simp_all
  have "outcome_for fp result"
  proof (cases r)
    case (Inl err)
    with assms pf show ?thesis by (auto simp: processFileWithContext_def outcome_for_def)
  next
    case (Inr infos)
    with assms pf r show ?thesis by (auto simp: processFileWithContext_def outcome_for_def)
  qed
  with c show ?thesis by simp
qed

lemma processFiles_log:
  assumes "processFiles L p rounds w = Some (returned, w')"
  shows "\<exists>new. chan_log w' = chan_log w @ new \<and> worker_log returned new \<and> wg w' = wg w
    \<and> length (sent new) \<le> length (received new)
    \<and> length (received new) \<le> length (sent new) + 1
    \<and> (list_all undisturbed rounds \<longrightarrow> length (received new) = length (sent new))"
  using assms
proof (induction L p rounds w arbitrary: returned w' rule: processFiles.induct)
  case (1 L p w)
  then show ?case by simp
next
  case (2 L p rounds w)
  then show ?case by simp
next
  case (3 L p rounds w)
  then show ?case by simp
next
  case (4 L p fp sd rc ok rounds w)
  define w1 where "w1 = w\<lparr>chan_log := chan_log w @ [Recv fp]\<rparr>"
  show ?case
  proof (cases sd)
    case True
    with 4(2) have "returned" and "w' = w1" by (simp_all add: w1_def Let_def)
    then have "chan_log w' = chan_log w @ [Recv fp]" and "wg w' = wg w" by (simp_all add: w1_def)
    with \<open>returned\<close> True show ?thesis by simp
  next
    case False
    from 4(2) False obtain result w2 where
      pr: "processFileWithContext L p rc fp (w1\<lparr>wg := wg w1 + 1\<rparr>) = Some (result, w2)"
      by (auto simp: w1_def Let_def split: option.splits)
    from processFileWithContext_outcome [OF pr]
    have out: "outcome_for fp result" and c2: "chan_log w2 = chan_log w @ [Recv fp]"
      and g2: "wg w2 = wg w + 1" by (simp_all add: w1_def)
    define w3 where "w3 = w2\<lparr>wg := wg w2 - 1\<rparr>"
    have c3: "chan_log w3 = chan_log w @ [Recv fp]" and g3: "wg w3 = wg w"
      using c2 g2 by (simp_all add: w3_def)
    show ?thesis
    proof (cases ok)
      case notsent: False
      with 4(2) False pr have "returned" and "w' = w3"
        by (simp_all add: w1_def w3_def Let_def)
      with c3 g3 notsent show ?thesis by simp
    next
      case True
      define w4 where "w4 = w3\<lparr>chan_log := chan_log w3 @ [Send result]\<rparr>"
      from 4(2) False pr True have rest: "processFiles L p rounds w4 = Some (returned, w')"
        by (simp add: w1_def w3_def w4_def Let_def)
      have "\<exists>new. chan_log w' = chan_log w4 @ new \<and> worker_log returned new \<and> wg w' = wg w4
        \<and> length (sent new) \<le> length (received new)
        \<and> length (received new) \<le> length (sent new) + 1
        \<and> (list_all undisturbed rounds \<longrightarrow> length (received new) = length (sent new))"
        unfolding w4_def w3_def
        by (rule 4(1) [OF refl False pr [unfolded w1_def] refl refl True rest [unfolded w4_def w3_def]])
      then obtain new where new: "chan_log w' = chan_log w4 @ new" "worker_log returned new"
        "wg w' = wg w4" "length (sent new) \<le> length (received new)"
        "length (received new) \<le> length (sent new) + 1"
        "list_all undisturbed rounds \<longrightarrow> length (received new) = length (sent new)" by blast
      have "chan_log w' = chan_log w @ (Recv fp # Send result # new)"
        using new(1) c3 by (simp add: w4_def)
      moreover have "worker_log returned (Recv fp # Send result # new)" using out new(2) by simp
      moreover have "wg w' = wg w" using new(3) g3 by (simp add: w4_def)
      ultimately show ?thesis using new(4,5,6) False True
        by (intro exI [where x = "Recv fp # Send result # new"]) simp
    qed
  qed
qed

lemma mini_ParseData_chain:
  "ParseData mini p fp ''C3C1C6'' w =
     Some (Inr [certificateInfoAt (readings w (reads w)) p fp
                  \<lparr>NotAfter = 3 * (24 * Hour), SerialNumber_String = ''3'',
                    Subject_String = ''CN=mini'', Issuer_String = ''CN=mini''\<rparr>,
                certificateInfoAt (readings w (reads w + 1)) p fp
                  \<lparr>NotAfter = 1 * (24 * Hour), SerialNumber_String = ''1'',
                    Subject_String = ''CN=mini'', Issuer_String = ''CN=mini''\<rparr>,
                certificateInfoAt (readings w (reads w + 2)) p fp
                  \<lparr>NotAfter = 6 * (24 * Hour), SerialNumber_String = ''6'',
                    Subject_String = ''CN=mini'', Issuer_String = ''CN=mini''\<rparr>],
           w\<lparr>reads := reads w + 3\<rparr>)"
proof -
  have "map (\<lambda>b. x509_ParseCertificate mini (Bytes b))
      (filter (\<lambda>b. Type b = ''CERTIFICATE'') [\<lparr>Type = ''CERTIFICATE'', Bytes = ''3''\<rparr>,
         \<lparr>Type = ''CERTIFICATE'', Bytes = ''1''\<rparr>, \<lparr>Type = ''CERTIFICATE'', Bytes = ''6''\<rparr>])
    = map Inr [\<lparr>NotAfter = 3 * (24 * Hour), SerialNumber_String = ''3'',
         Subject_String = ''CN=mini'', Issuer_String = ''CN=mini''\<rparr>,
       \<lparr>NotAfter = 1 * (24 * Hour), SerialNumber_String = ''1'',
         Subject_String = ''CN=mini'', Issuer_String = ''CN=mini''\<rparr>,
       \<lparr>NotAfter = 6 * (24 * Hour), SerialNumber_String = ''6'',
         Subject_String = ''CN=mini'', Issuer_String = ''CN=mini''\<rparr>]"
    by simp
  from ParseData_blocks [OF mini_chain this, of p fp w]
  show ?thesis by (simp add: numeral_3_eq_3)
qed

lemma mini_processFiles_chain:
  "processFiles mini parser30 [Received ''chain.pem'' False None True, ChanClosed] (frozen_clock 0) =
     Some (True, (frozen_clock 0)
       \<lparr>reads := 3,
        trace := [Stat ''chain.pem'', ReadFile ''chain.pem''],
        chan_log := [Recv ''chain.pem'',
          Send \<lparr>CertInfos =
                  [certificateInfoAt 0 parser30 ''chain.pem''
                     \<lparr>NotAfter = 3 * (24 * Hour), SerialNumber_String = ''3'',
                       Subject_String = ''CN=mini'', Issuer_String = ''CN=mini''\<rparr>,
                   certificateInfoAt 0 parser30 ''chain.pem''
                     \<lparr>NotAfter = 1 * (24 * Hour), SerialNumber_String = ''1'',
                       Subject_String = ''CN=mini'', Issuer_String = ''CN=mini''\<rparr>,
                   certificateInfoAt 0 parser30 ''chain.pem''
                     \<lparr>NotAfter = 6 * (24 * Hour), SerialNumber_String = ''6'',
                       Subject_String = ''CN=mini'', Issuer_String = ''CN=mini''\<rparr>],
                Error = None\<rparr>]\<rparr>)"
  by (simp add: processFileWithContext_def ParseFileWithContext_def readFileWithContext_def
      mini_Stat_def mini_ReadFile_def MaxFileSize_def mini_ParseData_chain frozen_clock_def Let_def)

text \<open>
  C7 does not hold as stated. A worker that receives a path while the shutdown flag is
  set returns at once: the path is taken from the queue and no outcome is sent for it.
\<close>

theorem C7_counterexample:
  "map_option (map_prod id chan_log)
     (processFiles mini parser30 [Received ''chain.pem'' True None True] (frozen_clock 0))
   = Some (True, [Recv ''chain.pem''])"
  by (simp add: frozen_clock_def Let_def)

text \<open>
  C7, amended. For every path that a worker receives it sends at most one outcome, an
  outcome for that path, before it receives the next one. Exactly one is sent unless the
  shutdown flag is set when the path arrives or the context is cancelled before the send
  goes through; in both cases the worker returns, so that only the last path a worker
  received can be left without an outcome.
\<close>

theorem C7_worker_outcomes:
  assumes "processFiles L p rounds w = Some (returned, w')" and "chan_log w = []"
  shows "worker_log returned (chan_log w')
    \<and> length (sent (chan_log w')) \<le> length (received (chan_log w'))
    \<and> length (received (chan_log w')) \<le> length (sent (chan_log w')) + 1
    \<and> (list_all undisturbed rounds \<longrightarrow>
          length (received (chan_log w')) = length (sent (chan_log w')))"
  using processFiles_log [OF assms(1)] assms(2) by auto

theorem C7_worker_outcomes_witness:
  "\<exists>w'. processFiles mini parser30 [Received ''chain.pem'' False None True, ChanClosed] (frozen_clock 0)
       = Some (True, w')
     \<and> chan_log (frozen_clock 0) = []
     \<and> list_all undisturbed [Received ''chain.pem'' False None True, ChanClosed]
     \<and> worker_log True (chan_log w')
     \<and> received (chan_log w') = [''chain.pem'']
     \<and> length (sent (chan_log w')) = 1"
proof -
  note e = mini_processFiles_chain
  have c: "chan_log (frozen_clock 0) = []" by (simp add: frozen_clock_def)
  from C7_worker_outcomes [OF e c]
  show ?thesis unfolding e using c by simp
qed

subsection \<open>Termination\<close>

text \<open>
  \<open>pem.Decode\<close> returns, with a block, a rest that is shorter than its input. With
  such a decoder the loop of \<open>ParseData\<close> ends, and so do the parser and the rounds of
  a worker.
\<close>

lemma ParseData_loop_returns:
  assumes "\<forall>d b r. pem_Decode L d = (Some b, r) \<longrightarrow> length r < length d"
  shows "\<exists>y. ParseData_loop L p fp remaining certs w = Some y"
proof (induction remaining arbitrary: certs w rule: length_induct)
  case (1 remaining)
  show ?case
  proof (cases "remaining = []")
    case True
    then show ?thesis by (subst ParseData_loop.simps) simp
  next
    case False
    obtain blk rest where dec: "pem_Decode L remaining = (blk, rest)"
      by (cases "pem_Decode L remaining")
    show ?thesis
    proof (cases blk)
      case None
      with False dec show ?thesis by (subst ParseData_loop.simps) simp
    next
      case (Some block)
      with dec assms have "length rest < length remaining" by simp
      with 1 have ih: "\<exists>y. ParseData_loop L p fp rest certs' w' = Some y" for certs' w'
        by blast
      show ?thesis
      proof (cases "Type block = ''CERTIFICATE''")
        case False
        with \<open>remaining \<noteq> []\<close> dec Some ih [of certs w] show ?thesis
          by (subst ParseData_loop.simps) simp
      next
        case True
        show ?thesis
        proof (cases "x509_ParseCertificate L (Bytes block)")
          case (Inl err)
          with \<open>remaining \<noteq> []\<close> dec Some True show ?thesis
            by (subst ParseData_loop.simps) simp
        next
          case (Inr cert)
          with \<open>remaining \<noteq> []\<close> dec Some True
            ih [of "certs @ [certificateInfoAt (readings w (reads w)) p fp cert]"
                "w\<lparr>reads := Suc (reads w)\<rparr>"]
          show ?thesis
            by (subst ParseData_loop.simps) (simp add: buildCertificateInfo_eq)
        qed
      qed
    qed
  qed
qed

lemma ParseData_returns:
  assumes "\<forall>d b r. pem_Decode L d = (Some b, r) \<longrightarrow> length r < length d"
  shows "\<exists>y. ParseData L p fp data w = Some y"
proof -
  from ParseData_loop_returns [OF assms, of p fp data "[]" w]
  obtain r w' where "ParseData_loop L p fp data [] w = Some (r, w')" by auto
  then show ?thesis by (cases r) (simp_all add: ParseData_def)
qed

lemma ParseFileWithContext_returns:
  assumes "\<forall>d b r. pem_Decode L d = (Some b, r) \<longrightarrow> length r < length d"
  shows "\<exists>y. ParseFileWithContext L p ctx fp w = Some y"
proof (cases "os_Stat L fp")
  case (Inl err)
  then show ?thesis by (simp add: ParseFileWithContext_def Let_def)
next
  case stat: (Inr fi)
  show ?thesis
  proof (cases "Size fi > MaxFileSize")
    case True
    with stat show ?thesis by (simp add: ParseFileWithContext_def Let_def)
  next
    case False
    obtain rd w2 where rd: "readFileWithContext L ctx fp (w\<lparr>trace := trace w @ [Stat fp]\<rparr>) = (rd, w2)"
      by (cases "readFileWithContext L ctx fp (w\<lparr>trace := trace w @ [Stat fp]\<rparr>)")
    show ?thesis
    proof (cases rd)
      case (Inl err)
      with stat False rd show ?thesis by (simp add: ParseFileWithContext_def Let_def)
    next
      case (Inr data)
      from ParseData_returns [OF assms, of p fp data w2]
      obtain y where "ParseData L p fp data w2 = Some y" by auto
      with stat False rd Inr show ?thesis by (simp add: ParseFileWithContext_def Let_def)
    qed
  qed
qed

lemma processFileWithContext_returns:
  assumes "\<forall>d b r. pem_Decode L d = (Some b, r) \<longrightarrow> length r < length d"
  shows "\<exists>y. processFileWithContext L p ctx fp w = Some y"
proof -
  from ParseFileWithContext_returns [OF assms, of p ctx fp w]
  obtain r w' where "ParseFileWithContext L p ctx fp w = Some (r, w')" by auto
  then show ?thesis by (cases r) (simp_all add: processFileWithContext_def)
qed

lemma processFiles_returns:
  assumes "\<forall>d b r. pem_Decode L d = (Some b, r) \<longrightarrow> length r < length d"
  shows "\<exists>y. processFiles L p rounds w = Some y"
proof (induction rounds arbitrary: w)
  case Nil
  show ?case by auto
next
  case (Cons r rounds)
  show ?case
  proof (cases r)
    case (Received fp sd rc ok)
    from processFileWithContext_returns [OF assms, of p rc fp
        "w\<lparr>chan_log := chan_log w @ [Recv fp], wg := wg w + 1\<rparr>"]
    obtain result w2 where "processFileWithContext L p rc fp
        (w\<lparr>chan_log := chan_log w @ [Recv fp], wg := wg w + 1\<rparr>) = Some (result, w2)"
      by auto
    with Received Cons show ?thesis by (auto simp: Let_def)
  qed auto
qed

lemma mini_Decode_shorter:
  "\<forall>d b r. pem_Decode mini d = (Some b, r) \<longrightarrow> length r < length d"
  by (auto simp: mini_def mini_Decode_def split: list.splits if_splits)

end
